theory Spec2Isabelle
  imports Complex_Main
begin

section \<open>Python values shared by the scripts\<close>

text \<open>
  A Python \<open>str\<close> is a \<^typ>\<open>string\<close>; a \<^typ>\<open>char\<close> stands for a code point below 256.
  \<open>str.strip()\<close> removes the code points for which \<open>str.isspace\<close> holds; below 256 these
  are 9 to 13, 28 to 32, 133 and 160.
\<close>

definition isspace :: "char \<Rightarrow> bool" where
  "isspace c = ((of_char c :: nat) \<in> {9, 10, 11, 12, 13, 28, 29, 30, 31, 32, 133, 160})"

definition strip :: "string \<Rightarrow> string" where
  "strip s = rev (dropWhile isspace (rev (dropWhile isspace s)))"

text \<open>\<open>sep.join(xs)\<close>\<close>

fun join :: "string \<Rightarrow> string list \<Rightarrow> string" where
  "join sep [] = []"
| "join sep [x] = x"
| "join sep (x # y # ys) = x @ sep @ join sep (y # ys)"

text \<open>
  The exceptions the scripts raise or receive. All of them are subclasses of
  \<open>Exception\<close>. \<open>HttpResponseError\<close> is the vendor SDK's error and carries
  \<open>status_code\<close> (which the SDK leaves \<open>None\<close> when there is no response);
  \<open>HTTPError\<close> is the one of \<open>requests\<close>, raised by \<open>raise_for_status\<close>, and carries
  \<open>response.status_code\<close>. \<open>PlainException\<close> is a plain \<open>Exception(message)\<close> and
  \<open>OtherException\<close> any further subclass of \<open>Exception\<close> a library call raises.
\<close>

datatype py_exception =
    ValueError string
  | TypeError string
  | KeyError string
  | IndexError string
  | HttpResponseError "int option"
  | HTTPError int
  | PlainException string
  | OtherException string

section \<open>05-text-summarizer.py\<close>

subsection \<open>Data classes and the summarizer object\<close>

record summary_result =
  summary_type :: string
  summary_text :: string
  sentences :: "string list option"
  rank_scores :: "real list option"
  processing_time :: real
  character_count :: nat
  confidence_score :: real

record summarizer_stats =
  total_requests :: nat
  successful_requests :: nat
  failed_requests :: nat
  total_characters_processed :: nat
  average_processing_time :: real

record summarizer =
  endpoint :: string
  api_key :: string
  max_retries :: nat
  retry_delay :: real
  rate_limit_delay :: real
  stats :: summarizer_stats

text \<open>
  \<open>AzureTextSummarizer.__init__\<close>. The first two arguments are the parameters, the last
  two what \<open>os.getenv\<close> returns for \<open>AZURE_LANGUAGE_ENDPOINT\<close> and
  \<open>AZURE_LANGUAGE_KEY\<close>. \<open>a or b\<close> is \<open>b\<close> when \<open>a\<close> is \<open>None\<close> or empty.
\<close>

definition py_or :: "string option \<Rightarrow> string option \<Rightarrow> string option" where
  "py_or a b = (if a = None \<or> a = Some [] then b else a)"

definition falsy :: "string option \<Rightarrow> bool" where
  "falsy a = (a = None \<or> a = Some [])"

definition AzureTextSummarizer_init ::
  "string option \<Rightarrow> string option \<Rightarrow> string option \<Rightarrow> string option \<Rightarrow> py_exception + summarizer" where
  "AzureTextSummarizer_init endpoint_arg api_key_arg env_endpoint env_key =
     (let e = py_or endpoint_arg env_endpoint; k = py_or api_key_arg env_key in
      if falsy e \<or> falsy k then Inl (ValueError ''Azure Language endpoint and API key are required'')
      else Inr \<lparr> endpoint = the e, api_key = the k,
                 max_retries = 3, retry_delay = 1, rate_limit_delay = 2,
                 stats = \<lparr> total_requests = 0, successful_requests = 0, failed_requests = 0,
                            total_characters_processed = 0, average_processing_time = 0 \<rparr> \<rparr>)"

text \<open>
  \<open>_update_stats\<close>. The average is a Python float; it is kept here in exact arithmetic
  and no statement below depends on its value.
\<close>

definition update_stats :: "summarizer \<Rightarrow> nat \<Rightarrow> real \<Rightarrow> bool \<Rightarrow> summarizer" where
  "update_stats s chars seconds success =
     (let st = stats s;
          st1 = st \<lparr> total_requests := total_requests st + 1,
                      total_characters_processed := total_characters_processed st + chars \<rparr>;
          st2 = (if success then st1 \<lparr> successful_requests := successful_requests st1 + 1 \<rparr>
                 else st1 \<lparr> failed_requests := failed_requests st1 + 1 \<rparr>);
          total_time = average_processing_time st2 * (real (total_requests st2) - 1)
      in s \<lparr> stats := st2 \<lparr> average_processing_time :=
                 (total_time + seconds) / real (total_requests st2) \<rparr> \<rparr>)"

subsection \<open>What the functions do to the outside world\<close>

datatype summary_action =
    ExtractiveSummaryAction int string
  | AbstractiveSummaryAction string

text \<open>
  The request body of the conversation job: the conversation items with their ids, roles
  and participant ids, and one task per summary aspect.
\<close>

record conversation_item =
  item_text :: string
  item_id :: string
  item_role :: string
  item_participantId :: string

record conversation_data =
  conversationItems :: "conversation_item list"
  task_aspects :: "string list"

text \<open>
  The observable steps, in order: a call of \<open>client.begin_analyze_actions\<close> (with the
  documents and the actions, followed by \<open>poller.result()\<close>), an \<open>asyncio.sleep\<close> with its
  delay in seconds, a \<open>requests.post\<close> to a URL with a subscription key and a body, and a
  \<open>requests.get\<close> of the operation location. Calls of \<open>logger\<close> are console output only
  and are left out.
\<close>

datatype event =
    BeginAnalyzeActions "string list" "summary_action list"
  | Sleep real
  | HttpPost string string conversation_data
  | HttpGet string string

text \<open>How the body of one \<open>try\<close> inside the retry loop ends.\<close>

datatype 'a body_outcome = BodyReturn 'a | BodyBreak | BodyRaise py_exception

text \<open>
  How the \<open>for\<close> loop ends: by a \<open>return\<close>, by an exception that leaves it, or by
  running to its end (through \<open>break\<close> or because \<open>range\<close> is used up).
\<close>

datatype 'a loop_outcome = LoopReturn 'a | LoopRaise py_exception | LoopDone

text \<open>What an \<open>except\<close> clause of the retry loop does with the exception of one attempt.\<close>

datatype handler_action = Reraise | SleepAndContinue real

text \<open>
  The two \<open>except\<close> clauses of \<open>extractive_summarization\<close> and
  \<open>abstractive_summarization\<close>: \<open>except HttpResponseError\<close> first, then
  \<open>except Exception\<close>.
\<close>

fun sdk_handler :: "summarizer \<Rightarrow> nat \<Rightarrow> py_exception \<Rightarrow> handler_action" where
  "sdk_handler s attempt (HttpResponseError status_code) =
     (if status_code = Some 429 then SleepAndContinue (rate_limit_delay s * 2 ^ attempt)
      else Reraise)"
| "sdk_handler s attempt e =
     (if int attempt = int (max_retries s) - 1 then Reraise
      else SleepAndContinue (retry_delay s * 2 ^ attempt))"

text \<open>
  \<open>for attempt in range(self.max_retries): try: ... except ...\<close>, run over the list of
  attempt numbers. \<open>body s attempt\<close> is the \<open>try\<close> block: its events, the summarizer
  after it and how it ended.
\<close>

fun retry_loop ::
  "(summarizer \<Rightarrow> nat \<Rightarrow> py_exception \<Rightarrow> handler_action) \<Rightarrow>
   (summarizer \<Rightarrow> nat \<Rightarrow> event list \<times> summarizer \<times> 'a body_outcome) \<Rightarrow>
   summarizer \<Rightarrow> nat list \<Rightarrow> event list \<times> summarizer \<times> 'a loop_outcome" where
  "retry_loop handler body s [] = ([], s, LoopDone)"
| "retry_loop handler body s (attempt # rest) =
     (case body s attempt of
        (ev, s', BodyReturn r) \<Rightarrow> (ev, s', LoopReturn r)
      | (ev, s', BodyBreak) \<Rightarrow> (ev, s', LoopDone)
      | (ev, s', BodyRaise e) \<Rightarrow>
          (case handler s' attempt e of
             Reraise \<Rightarrow> (ev, s', LoopRaise e)
           | SleepAndContinue d \<Rightarrow>
               (case retry_loop handler body s' rest of
                  (tr, s'', r) \<Rightarrow> (ev @ Sleep d # tr, s'', r))))"

subsection \<open>Extractive and abstractive summarization\<close>

text \<open>
  What one call of the SDK gives on an attempt: an exception out of
  \<open>begin_analyze_actions\<close>, \<open>poller.result()\<close> or the iteration over the result, or the
  result, a sequence of action results, each read through its attribute
  (\<open>extract_summary_results\<close> or \<open>abstractive_summary_results\<close>) as a sequence of
  document results.
\<close>

datatype 'd sdk_outcome = SdkRaise py_exception | SdkResult "'d list list"

datatype extract_doc_result =
    ExtractError string
  | ExtractSentences "(string \<times> real) list"

datatype abstract_doc_result =
    AbstractError string
  | AbstractSummaries "string list"

text \<open>
  The nested \<open>for\<close> loops over the result of \<open>extractive_summarization\<close>: the first document
  result met either raises or returns; with none the loops end and \<open>break\<close> follows.
  \<open>elapsed\<close> is \<open>time.time() - start_time\<close> where it is read.
\<close>

fun extract_results ::
  "summarizer \<Rightarrow> real \<Rightarrow> string \<Rightarrow> extract_doc_result list list \<Rightarrow>
   summarizer \<times> summary_result body_outcome" where
  "extract_results s elapsed text [] = (s, BodyBreak)"
| "extract_results s elapsed text ([] # others) = extract_results s elapsed text others"
| "extract_results s elapsed text ((ExtractError message # ds) # others) =
     (s, BodyRaise (PlainException (''Analysis error: '' @ message)))"
| "extract_results s elapsed text ((ExtractSentences ss # ds) # others) =
     (update_stats s (length text) elapsed True,
      BodyReturn \<lparr> summary_type = ''extractive'',
                   summary_text = join '' '' (map fst ss),
                   sentences = Some (map fst ss),
                   rank_scores = Some (map snd ss),
                   processing_time = elapsed,
                   character_count = length text,
                   confidence_score = 0 \<rparr>)"

definition extractive_attempt ::
  "(nat \<Rightarrow> extract_doc_result sdk_outcome) \<Rightarrow> real \<Rightarrow> string \<Rightarrow> summary_action \<Rightarrow>
   summarizer \<Rightarrow> nat \<Rightarrow> event list \<times> summarizer \<times> summary_result body_outcome" where
  "extractive_attempt client elapsed text action s attempt =
     (case client attempt of
        SdkRaise e \<Rightarrow> ([BeginAnalyzeActions [text] [action]], s, BodyRaise e)
      | SdkResult result \<Rightarrow>
          (case extract_results s elapsed text result of
             (s', b) \<Rightarrow> ([BeginAnalyzeActions [text] [action]], s', b)))"

text \<open>
  The outer \<open>try\<close> of the three operations: a \<open>return\<close> inside the loop returns the value,
  the end of the loop lets the function end without a \<open>return\<close> (Python returns \<open>None\<close>),
  and an exception is counted as a failed request and raised again.
\<close>

definition finish ::
  "nat \<Rightarrow> real \<Rightarrow> event list \<times> summarizer \<times> 'a loop_outcome \<Rightarrow>
   event list \<times> summarizer \<times> (py_exception + 'a option)" where
  "finish chars elapsed res =
     (case res of
        (tr, s, LoopReturn r) \<Rightarrow> (tr, s, Inr (Some r))
      | (tr, s, LoopDone) \<Rightarrow> (tr, s, Inr None)
      | (tr, s, LoopRaise e) \<Rightarrow> (tr, update_stats s chars elapsed False, Inl e))"

definition extractive_summarization ::
  "summarizer \<Rightarrow> (nat \<Rightarrow> extract_doc_result sdk_outcome) \<Rightarrow> real \<Rightarrow> string \<Rightarrow> int \<Rightarrow> string \<Rightarrow>
   event list \<times> summarizer \<times> (py_exception + summary_result option)" where
  "extractive_summarization s client elapsed text sentence_count sort_by =
     finish (length text) elapsed
       (if text = [] \<or> length (strip text) = 0
          then ([], s, LoopRaise (ValueError ''Input text cannot be empty''))
        else if \<not> (1 \<le> sentence_count \<and> sentence_count \<le> 20)
          then ([], s, LoopRaise (ValueError ''Sentence count must be between 1 and 20''))
        else retry_loop sdk_handler
               (extractive_attempt client elapsed text (ExtractiveSummaryAction sentence_count sort_by))
               s [0 ..< max_retries s])"

fun abstract_results ::
  "summarizer \<Rightarrow> real \<Rightarrow> string \<Rightarrow> abstract_doc_result list list \<Rightarrow>
   summarizer \<times> summary_result body_outcome" where
  "abstract_results s elapsed text [] = (s, BodyBreak)"
| "abstract_results s elapsed text ([] # others) = abstract_results s elapsed text others"
| "abstract_results s elapsed text ((AbstractError message # ds) # others) =
     (s, BodyRaise (PlainException (''Analysis error: '' @ message)))"
| "abstract_results s elapsed text ((AbstractSummaries summaries # ds) # others) =
     (update_stats s (length text) elapsed True,
      BodyReturn \<lparr> summary_type = ''abstractive'',
                   summary_text = join '' '' summaries,
                   sentences = None,
                   rank_scores = None,
                   processing_time = elapsed,
                   character_count = length text,
                   confidence_score = 0 \<rparr>)"

definition abstractive_attempt ::
  "(nat \<Rightarrow> abstract_doc_result sdk_outcome) \<Rightarrow> real \<Rightarrow> string \<Rightarrow> summary_action \<Rightarrow>
   summarizer \<Rightarrow> nat \<Rightarrow> event list \<times> summarizer \<times> summary_result body_outcome" where
  "abstractive_attempt client elapsed text action s attempt =
     (case client attempt of
        SdkRaise e \<Rightarrow> ([BeginAnalyzeActions [text] [action]], s, BodyRaise e)
      | SdkResult result \<Rightarrow>
          (case abstract_results s elapsed text result of
             (s', b) \<Rightarrow> ([BeginAnalyzeActions [text] [action]], s', b)))"

definition abstractive_summarization ::
  "summarizer \<Rightarrow> (nat \<Rightarrow> abstract_doc_result sdk_outcome) \<Rightarrow> real \<Rightarrow> string \<Rightarrow> string \<Rightarrow>
   event list \<times> summarizer \<times> (py_exception + summary_result option)" where
  "abstractive_summarization s client elapsed text summary_length =
     finish (length text) elapsed
       (if text = [] \<or> length (strip text) = 0
          then ([], s, LoopRaise (ValueError ''Input text cannot be empty''))
        else if summary_length \<notin> set [''short'', ''medium'', ''long'']
          then ([], s, LoopRaise (ValueError ''Summary length must be 'short', 'medium', or 'long' ''))
        else retry_loop sdk_handler
               (abstractive_attempt client elapsed text (AbstractiveSummaryAction summary_length))
               s [0 ..< max_retries s])"

subsection \<open>Conversation summarization\<close>

text \<open>\<open>str(n)\<close> for a natural number.\<close>

fun str_nat :: "nat \<Rightarrow> string" where
  "str_nat n = (if n < 10 then [char_of (48 + n)] else str_nat (n div 10) @ [char_of (48 + n mod 10)])"

text \<open>
  A conversation item is a dictionary from strings to strings. The list comprehension that
  builds \<open>conversationItems\<close> reads \<open>item["text"]\<close>, which raises \<open>KeyError\<close> when
  the key is missing, and takes \<open>role\<close> and \<open>participantId\<close> with defaults;
  \<open>i\<close> is the index of \<open>enumerate\<close>.
\<close>

fun build_items :: "nat \<Rightarrow> (string \<rightharpoonup> string) list \<Rightarrow> py_exception + conversation_item list" where
  "build_items i [] = Inr []"
| "build_items i (item # rest) =
     (case item ''text'' of
        None \<Rightarrow> Inl (KeyError ''text'')
      | Some t \<Rightarrow>
          (case build_items (i + 1) rest of
             Inl e \<Rightarrow> Inl e
           | Inr xs \<Rightarrow>
               Inr (\<lparr> item_text = t,
                       item_id = str_nat (i + 1),
                       item_role = (case item ''role'' of None \<Rightarrow> ''Customer'' | Some r \<Rightarrow> r),
                       item_participantId =
                         (case item ''participantId'' of
                            None \<Rightarrow> ''Participant_'' @ str_nat (i + 1)
                          | Some p \<Rightarrow> p) \<rparr> # xs)))"

definition build_data ::
  "(string \<rightharpoonup> string) list \<Rightarrow> string list option \<Rightarrow> py_exception + conversation_data" where
  "build_data conversation_items summary_aspects =
     (case build_items 0 conversation_items of
        Inl e \<Rightarrow> Inl e
      | Inr xs \<Rightarrow>
          Inr \<lparr> conversationItems = xs,
                task_aspects = (case summary_aspects of
                                  None \<Rightarrow> [''issue'', ''resolution'', ''recap'']
                                | Some a \<Rightarrow> a) \<rparr>)"

definition job_url :: "summarizer \<Rightarrow> string" where
  "job_url s = endpoint s @ ''/language/analyze-conversations/jobs?api-version=2023-04-01''"

text \<open>\<open>sum(len(item["text"]) for item in conversation_items)\<close>\<close>

fun total_chars :: "(string \<rightharpoonup> string) list \<Rightarrow> py_exception + nat" where
  "total_chars [] = Inr 0"
| "total_chars (item # rest) =
     (case item ''text'' of
        None \<Rightarrow> Inl (KeyError ''text'')
      | Some t \<Rightarrow> (case total_chars rest of Inl e \<Rightarrow> Inl e | Inr n \<Rightarrow> Inr (length t + n)))"

text \<open>
  What the service answers. A \<open>requests.post\<close> or \<open>requests.get\<close> either raises (a
  connection error, say) or gives a response with a status code; \<open>raise_for_status\<close>
  raises \<open>HTTPError\<close> for the codes from 400 to 599. The response to the \<open>post\<close> carries
  the \<open>operation-location\<close> header or not. The body of a successful \<open>get\<close> is the decoded
  job: its status and its tasks, each with a status and conversations, each a list of
  summaries (aspect and text). A body that does not decode or lacks a key raises where it
  is read, inside the same \<open>try\<close>, and is an answer \<open>GetRaise\<close> here.
\<close>

definition raise_for_status :: "int \<Rightarrow> bool" where
  "raise_for_status code = (400 \<le> code \<and> code < 600)"

record task_result =
  task_status :: string
  task_conversations :: "(string \<times> string) list list"

record result_data =
  job_status :: string
  job_tasks :: "task_result list"

datatype post_outcome = PostRaise py_exception | PostResponse int "string option"

datatype get_outcome = GetRaise py_exception | GetResponse int result_data

record conversation_summary =
  issue :: string
  resolution :: string
  recap :: string
  chapter_titles :: "string list option"
  narrative_summaries :: "string list option"

definition add_summary :: "conversation_summary \<Rightarrow> string \<times> string \<Rightarrow> conversation_summary" where
  "add_summary cs summary =
     (case summary of (aspect, text) \<Rightarrow>
        if aspect = ''issue'' then cs \<lparr> issue := text \<rparr>
        else if aspect = ''resolution'' then cs \<lparr> resolution := text \<rparr>
        else if aspect = ''recap'' then cs \<lparr> recap := text \<rparr>
        else if aspect = ''chapterTitle'' then
          cs \<lparr> chapter_titles :=
                 Some ((case chapter_titles cs of None \<Rightarrow> [] | Some ts \<Rightarrow> ts) @ [text]) \<rparr>
        else if aspect = ''narrative'' then
          cs \<lparr> narrative_summaries :=
                 Some ((case narrative_summaries cs of None \<Rightarrow> [] | Some ts \<Rightarrow> ts) @ [text]) \<rparr>
        else cs)"

definition parse_results :: "result_data \<Rightarrow> conversation_summary" where
  "parse_results d =
     foldl (\<lambda>cs task.
              if task_status task = ''succeeded''
              then foldl (\<lambda>cs conv. foldl add_summary cs conv) cs (task_conversations task)
              else cs)
           \<lparr> issue = [], resolution = [], recap = [],
             chapter_titles = None, narrative_summaries = None \<rparr>
           (job_tasks d)"

text \<open>
  The \<open>while True\<close> loop that polls the operation location. \<open>get i\<close> is the answer to
  the \<open>i\<close>-th \<open>get\<close> of the attempt. The loop has no bound: it ends only on the status
  \<open>succeeded\<close>, on the status \<open>failed\<close> or on an exception, and sleeps two seconds before
  every further \<open>get\<close>. \<open>None\<close> is a loop that never ends.
\<close>

partial_function (option) poll ::
  "(nat \<Rightarrow> get_outcome) \<Rightarrow> string \<Rightarrow> string \<Rightarrow> nat \<Rightarrow>
   (event list \<times> (py_exception + result_data)) option" where
  "poll get operation_location key i =
     (case get i of
        GetRaise e \<Rightarrow> Some ([HttpGet operation_location key], Inl e)
      | GetResponse code d \<Rightarrow>
          if raise_for_status code then Some ([HttpGet operation_location key], Inl (HTTPError code))
          else if job_status d = ''succeeded'' then Some ([HttpGet operation_location key], Inr d)
          else if job_status d = ''failed''
            then Some ([HttpGet operation_location key],
                       Inl (PlainException ''Conversation analysis failed''))
          else Option.bind (poll get operation_location key (i + 1))
                 (\<lambda>p. Some (HttpGet operation_location key # Sleep 2 # fst p, snd p)))"

text \<open>
  The \<open>try\<close> block of one attempt of \<open>conversation_summarization\<close>. \<open>post attempt\<close> is
  the answer to the \<open>post\<close> of the attempt and \<open>get attempt i\<close> the answer to its
  \<open>i\<close>-th \<open>get\<close>. The URL, the key of the headers and the body are built once, before
  the loop.
\<close>

definition conversation_attempt ::
  "(nat \<Rightarrow> post_outcome) \<Rightarrow> (nat \<Rightarrow> nat \<Rightarrow> get_outcome) \<Rightarrow> real \<Rightarrow>
   (string \<rightharpoonup> string) list \<Rightarrow> string \<Rightarrow> string \<Rightarrow> conversation_data \<Rightarrow> summarizer \<Rightarrow> nat \<Rightarrow>
   (event list \<times> summarizer \<times> conversation_summary body_outcome) option" where
  "conversation_attempt post get elapsed conversation_items url key body s attempt =
     (let submit = HttpPost url key body in
      case post attempt of
        PostRaise e \<Rightarrow> Some ([submit], s, BodyRaise e)
      | PostResponse code operation_location \<Rightarrow>
          if raise_for_status code then Some ([submit], s, BodyRaise (HTTPError code))
          else if operation_location = None \<or> operation_location = Some []
            then Some ([submit], s, BodyRaise (PlainException ''No operation location in response''))
          else
            (case poll (get attempt) (the operation_location) key 0 of
               None \<Rightarrow> None
             | Some (tr, Inl e) \<Rightarrow> Some (submit # tr, s, BodyRaise e)
             | Some (tr, Inr d) \<Rightarrow>
                 (case total_chars conversation_items of
                    Inl e \<Rightarrow> Some (submit # tr, s, BodyRaise e)
                  | Inr n \<Rightarrow>
                      Some (submit # tr, update_stats s n elapsed True,
                            BodyReturn (parse_results d)))))"

text \<open>
  The two \<open>except\<close> clauses of \<open>conversation_summarization\<close>:
  \<open>except requests.exceptions.HTTPError\<close> first, then \<open>except Exception\<close>.
\<close>

fun rest_handler :: "summarizer \<Rightarrow> nat \<Rightarrow> py_exception \<Rightarrow> handler_action" where
  "rest_handler s attempt (HTTPError status_code) =
     (if status_code = 429 then SleepAndContinue (rate_limit_delay s * 2 ^ attempt)
      else Reraise)"
| "rest_handler s attempt e =
     (if int attempt = int (max_retries s) - 1 then Reraise
      else SleepAndContinue (retry_delay s * 2 ^ attempt))"

text \<open>
  The retry loop again, around a \<open>try\<close> block that may never end: the loop then never ends
  either.
\<close>

fun retry_loop_opt ::
  "(summarizer \<Rightarrow> nat \<Rightarrow> py_exception \<Rightarrow> handler_action) \<Rightarrow>
   (summarizer \<Rightarrow> nat \<Rightarrow> (event list \<times> summarizer \<times> 'a body_outcome) option) \<Rightarrow>
   summarizer \<Rightarrow> nat list \<Rightarrow> (event list \<times> summarizer \<times> 'a loop_outcome) option" where
  "retry_loop_opt handler body s [] = Some ([], s, LoopDone)"
| "retry_loop_opt handler body s (attempt # rest) =
     (case body s attempt of
        None \<Rightarrow> None
      | Some (ev, s', BodyReturn r) \<Rightarrow> Some (ev, s', LoopReturn r)
      | Some (ev, s', BodyBreak) \<Rightarrow> Some (ev, s', LoopDone)
      | Some (ev, s', BodyRaise e) \<Rightarrow>
          (case handler s' attempt e of
             Reraise \<Rightarrow> Some (ev, s', LoopRaise e)
           | SleepAndContinue d \<Rightarrow>
               (case retry_loop_opt handler body s' rest of
                  None \<Rightarrow> None
                | Some (tr, s'', r) \<Rightarrow> Some (ev @ Sleep d # tr, s'', r))))"

text \<open>
  The outer \<open>except\<close> of \<open>conversation_summarization\<close> computes the number of characters
  again, which may itself raise; that exception then replaces the first one and the
  statistics stay as they are.
\<close>

definition finish_conversation ::
  "(string \<rightharpoonup> string) list \<Rightarrow> real \<Rightarrow> event list \<times> summarizer \<times> 'a loop_outcome \<Rightarrow>
   event list \<times> summarizer \<times> (py_exception + 'a option)" where
  "finish_conversation conversation_items elapsed res =
     (case res of
        (tr, s, LoopReturn r) \<Rightarrow> (tr, s, Inr (Some r))
      | (tr, s, LoopDone) \<Rightarrow> (tr, s, Inr None)
      | (tr, s, LoopRaise e) \<Rightarrow>
          (case total_chars conversation_items of
             Inl e' \<Rightarrow> (tr, s, Inl e')
           | Inr n \<Rightarrow> (tr, update_stats s n elapsed False, Inl e)))"

definition conversation_summarization ::
  "summarizer \<Rightarrow> (nat \<Rightarrow> post_outcome) \<Rightarrow> (nat \<Rightarrow> nat \<Rightarrow> get_outcome) \<Rightarrow> real \<Rightarrow>
   (string \<rightharpoonup> string) list \<Rightarrow> string list option \<Rightarrow>
   (event list \<times> summarizer \<times> (py_exception + conversation_summary option)) option" where
  "conversation_summarization s post get elapsed conversation_items summary_aspects =
     map_option (finish_conversation conversation_items elapsed)
       (if conversation_items = []
          then Some ([], s, LoopRaise (ValueError ''Conversation items cannot be empty''))
        else
          (case build_data conversation_items summary_aspects of
             Inl e \<Rightarrow> Some ([], s, LoopRaise e)
           | Inr body \<Rightarrow>
               retry_loop_opt rest_handler
                 (conversation_attempt post get elapsed conversation_items
                    (job_url s) (api_key s) body)
                 s [0 ..< max_retries s]))"

subsection \<open>Conversation summarization, observed while it runs\<close>

text \<open>
  The value \<open>None\<close> of \<open>conversation_summarization\<close> says that a call never ends and
  nothing about what it does until then. The functions of this subsection are the same
  code with the polling loop cut after \<open>fuel\<close> calls of \<open>get\<close> on each attempt. A loop
  that needs more has no result yet, the call has no outcome yet, and the events are those
  of the call up to that point; so a call that never ends has its events too, as far as
  one likes to look.
\<close>

fun poll_steps ::
  "nat \<Rightarrow> (nat \<Rightarrow> get_outcome) \<Rightarrow> string \<Rightarrow> string \<Rightarrow> nat \<Rightarrow>
   event list \<times> (py_exception + result_data) option" where
  "poll_steps 0 get operation_location key i = ([], None)"
| "poll_steps (Suc fuel) get operation_location key i =
     (case get i of
        GetRaise e \<Rightarrow> ([HttpGet operation_location key], Some (Inl e))
      | GetResponse code d \<Rightarrow>
          if raise_for_status code
            then ([HttpGet operation_location key], Some (Inl (HTTPError code)))
          else if job_status d = ''succeeded''
            then ([HttpGet operation_location key], Some (Inr d))
          else if job_status d = ''failed''
            then ([HttpGet operation_location key],
                  Some (Inl (PlainException ''Conversation analysis failed'')))
          else
            (case poll_steps fuel get operation_location key (i + 1) of
               (tr, r) \<Rightarrow> (HttpGet operation_location key # Sleep 2 # tr, r)))"

definition conversation_attempt_steps ::
  "nat \<Rightarrow> (nat \<Rightarrow> post_outcome) \<Rightarrow> (nat \<Rightarrow> nat \<Rightarrow> get_outcome) \<Rightarrow> real \<Rightarrow>
   (string \<rightharpoonup> string) list \<Rightarrow> string \<Rightarrow> string \<Rightarrow> conversation_data \<Rightarrow> summarizer \<Rightarrow> nat \<Rightarrow>
   event list \<times> summarizer \<times> conversation_summary body_outcome option" where
  "conversation_attempt_steps fuel post get elapsed conversation_items url key body s attempt =
     (let submit = HttpPost url key body in
      case post attempt of
        PostRaise e \<Rightarrow> ([submit], s, Some (BodyRaise e))
      | PostResponse code operation_location \<Rightarrow>
          if raise_for_status code then ([submit], s, Some (BodyRaise (HTTPError code)))
          else if operation_location = None \<or> operation_location = Some []
            then ([submit], s, Some (BodyRaise (PlainException ''No operation location in response'')))
          else
            (case poll_steps fuel (get attempt) (the operation_location) key 0 of
               (tr, None) \<Rightarrow> (submit # tr, s, None)
             | (tr, Some (Inl e)) \<Rightarrow> (submit # tr, s, Some (BodyRaise e))
             | (tr, Some (Inr d)) \<Rightarrow>
                 (case total_chars conversation_items of
                    Inl e \<Rightarrow> (submit # tr, s, Some (BodyRaise e))
                  | Inr n \<Rightarrow>
                      (submit # tr, update_stats s n elapsed True,
                       Some (BodyReturn (parse_results d))))))"

fun retry_loop_steps ::
  "(summarizer \<Rightarrow> nat \<Rightarrow> py_exception \<Rightarrow> handler_action) \<Rightarrow>
   (summarizer \<Rightarrow> nat \<Rightarrow> event list \<times> summarizer \<times> 'a body_outcome option) \<Rightarrow>
   summarizer \<Rightarrow> nat list \<Rightarrow> event list \<times> summarizer \<times> 'a loop_outcome option" where
  "retry_loop_steps handler body s [] = ([], s, Some LoopDone)"
| "retry_loop_steps handler body s (attempt # rest) =
     (case body s attempt of
        (ev, s', None) \<Rightarrow> (ev, s', None)
      | (ev, s', Some (BodyReturn r)) \<Rightarrow> (ev, s', Some (LoopReturn r))
      | (ev, s', Some BodyBreak) \<Rightarrow> (ev, s', Some LoopDone)
      | (ev, s', Some (BodyRaise e)) \<Rightarrow>
          (case handler s' attempt e of
             Reraise \<Rightarrow> (ev, s', Some (LoopRaise e))
           | SleepAndContinue d \<Rightarrow>
               (case retry_loop_steps handler body s' rest of
                  (tr, s'', r) \<Rightarrow> (ev @ Sleep d # tr, s'', r))))"

definition conversation_summarization_steps ::
  "nat \<Rightarrow> summarizer \<Rightarrow> (nat \<Rightarrow> post_outcome) \<Rightarrow> (nat \<Rightarrow> nat \<Rightarrow> get_outcome) \<Rightarrow> real \<Rightarrow>
   (string \<rightharpoonup> string) list \<Rightarrow> string list option \<Rightarrow>
   event list \<times> summarizer \<times> (py_exception + conversation_summary option) option" where
  "conversation_summarization_steps fuel s post get elapsed conversation_items summary_aspects =
     (case (if conversation_items = []
              then ([], s, Some (LoopRaise (ValueError ''Conversation items cannot be empty'')))
            else
              (case build_data conversation_items summary_aspects of
                 Inl e \<Rightarrow> ([], s, Some (LoopRaise e))
               | Inr body \<Rightarrow>
                   retry_loop_steps rest_handler
                     (conversation_attempt_steps fuel post get elapsed conversation_items
                        (job_url s) (api_key s) body)
                     s [0 ..< max_retries s])) of
        (tr, s', None) \<Rightarrow> (tr, s', None)
      | (tr, s', Some out) \<Rightarrow>
          (case finish_conversation conversation_items elapsed (tr, s', out) of
             (tr', s'', r) \<Rightarrow> (tr', s'', Some r)))"

subsection \<open>Batch summarization\<close>

text \<open>
  The keyword arguments that \<open>batch_summarization\<close> passes on with \<open>**kwargs\<close>: the
  three names the summarization functions know, each given or not, and the names of any
  others. A name the called function does not have makes the call raise \<open>TypeError\<close>
  before its body runs.
\<close>

record kwargs =
  kw_sentence_count :: "int option"
  kw_sort_by :: "string option"
  kw_summary_length :: "string option"
  kw_other :: "string list"

definition call_extractive ::
  "summarizer \<Rightarrow> (nat \<Rightarrow> extract_doc_result sdk_outcome) \<Rightarrow> real \<Rightarrow> string \<Rightarrow> kwargs \<Rightarrow>
   event list \<times> summarizer \<times> (py_exception + summary_result option)" where
  "call_extractive s client elapsed doc kw =
     (if kw_summary_length kw \<noteq> None \<or> kw_other kw \<noteq> []
        then ([], s, Inl (TypeError ''unexpected keyword argument''))
      else extractive_summarization s client elapsed doc
             (case kw_sentence_count kw of None \<Rightarrow> 3 | Some n \<Rightarrow> n)
             (case kw_sort_by kw of None \<Rightarrow> ''Rank'' | Some x \<Rightarrow> x))"

definition call_abstractive ::
  "summarizer \<Rightarrow> (nat \<Rightarrow> abstract_doc_result sdk_outcome) \<Rightarrow> real \<Rightarrow> string \<Rightarrow> kwargs \<Rightarrow>
   event list \<times> summarizer \<times> (py_exception + summary_result option)" where
  "call_abstractive s client elapsed doc kw =
     (if kw_sentence_count kw \<noteq> None \<or> kw_sort_by kw \<noteq> None \<or> kw_other kw \<noteq> []
        then ([], s, Inl (TypeError ''unexpected keyword argument''))
      else abstractive_summarization s client elapsed doc
             (case kw_summary_length kw of None \<Rightarrow> ''medium'' | Some x \<Rightarrow> x))"

text \<open>
  \<open>process_document\<close>: the summarization chosen by \<open>summarization_type\<close>, with every
  exception turned into \<open>None\<close>.
\<close>

definition process_document ::
  "summarizer \<Rightarrow> (nat \<Rightarrow> extract_doc_result sdk_outcome) \<Rightarrow> (nat \<Rightarrow> abstract_doc_result sdk_outcome) \<Rightarrow>
   real \<Rightarrow> string \<Rightarrow> kwargs \<Rightarrow> string \<Rightarrow> event list \<times> summarizer \<times> summary_result option" where
  "process_document s ext_client abs_client elapsed summarization_type kw doc =
     (case (if summarization_type = ''extractive''
            then call_extractive s ext_client elapsed doc kw
            else call_abstractive s abs_client elapsed doc kw) of
        (tr, s', Inl e) \<Rightarrow> (tr, s', None)
      | (tr, s', Inr r) \<Rightarrow> (tr, s', r))"

text \<open>
  \<open>asyncio.gather\<close> over one task per document gives the results in the order of the
  documents. The \<open>i\<close>-th document has its own answers of the service
  (\<open>ext_client i\<close>, \<open>abs_client i\<close>) and its own clock reading. The tasks take turns only
  at their sleeps; the order of their turns changes neither the events of a document nor
  its result, which depend on its own answers and on the configuration only, so the
  documents are taken one after the other here, and the events are kept per document.
\<close>

fun gather ::
  "summarizer \<Rightarrow> (nat \<Rightarrow> nat \<Rightarrow> extract_doc_result sdk_outcome) \<Rightarrow>
   (nat \<Rightarrow> nat \<Rightarrow> abstract_doc_result sdk_outcome) \<Rightarrow> (nat \<Rightarrow> real) \<Rightarrow> string \<Rightarrow> kwargs \<Rightarrow>
   nat \<Rightarrow> string list \<Rightarrow> event list list \<times> summarizer \<times> summary_result option list" where
  "gather s ext_client abs_client elapsed summarization_type kw i [] = ([], s, [])"
| "gather s ext_client abs_client elapsed summarization_type kw i (doc # docs) =
     (case process_document s (ext_client i) (abs_client i) (elapsed i) summarization_type kw doc of
        (tr, s', r) \<Rightarrow>
          (case gather s' ext_client abs_client elapsed summarization_type kw (i + 1) docs of
             (trs, s'', rs) \<Rightarrow> (tr # trs, s'', r # rs)))"

definition batch_summarization ::
  "summarizer \<Rightarrow> (nat \<Rightarrow> nat \<Rightarrow> extract_doc_result sdk_outcome) \<Rightarrow>
   (nat \<Rightarrow> nat \<Rightarrow> abstract_doc_result sdk_outcome) \<Rightarrow> (nat \<Rightarrow> real) \<Rightarrow>
   string list \<Rightarrow> string \<Rightarrow> kwargs \<Rightarrow> event list list \<times> summarizer \<times> summary_result list" where
  "batch_summarization s ext_client abs_client elapsed documents summarization_type kw =
     (case gather s ext_client abs_client elapsed summarization_type kw 0 documents of
        (trs, s', results) \<Rightarrow> (trs, s', map the (filter (\<lambda>r. r \<noteq> None) results)))"

section \<open>chat\_with\_gpt.py: the conversation manager\<close>

record message =
  role :: string
  content :: string

record conversation_manager =
  messages :: "message list"
  max_history :: int
  total_tokens :: int

definition ConversationManager_init :: "string \<Rightarrow> int \<Rightarrow> conversation_manager" where
  "ConversationManager_init system_prompt mh =
     \<lparr> messages = [\<lparr> role = ''system'', content = system_prompt \<rparr>],
       max_history = mh, total_tokens = 0 \<rparr>"

text \<open>
  The slice \<open>xs[i:]\<close>: a negative \<open>i\<close> counts from the end and is clamped at the start
  of the list; \<open>xs[-0:]\<close> is \<open>xs[0:]\<close>, the whole list.
\<close>

definition slice_from :: "'a list \<Rightarrow> int \<Rightarrow> 'a list" where
  "slice_from xs i = (if i < 0 then drop (nat (int (length xs) + i)) xs else drop (nat i) xs)"

definition trim_history :: "conversation_manager \<Rightarrow> py_exception + conversation_manager" where
  "trim_history m =
     (if int (length (messages m)) > max_history m + 1 then
        (case messages m of
           [] \<Rightarrow> Inl (IndexError ''list index out of range'')
         | m0 # ms \<Rightarrow> Inr (m \<lparr> messages := [m0] @ slice_from (messages m) (- (max_history m)) \<rparr>))
      else Inr m)"

definition add_user_message :: "conversation_manager \<Rightarrow> string \<Rightarrow> py_exception + conversation_manager" where
  "add_user_message m c =
     trim_history (m \<lparr> messages := messages m @ [\<lparr> role = ''user'', content = c \<rparr>] \<rparr>)"

definition add_assistant_message :: "conversation_manager \<Rightarrow> string \<Rightarrow> py_exception + conversation_manager" where
  "add_assistant_message m c =
     trim_history (m \<lparr> messages := messages m @ [\<lparr> role = ''assistant'', content = c \<rparr>] \<rparr>)"

text \<open>A sequence of calls on one manager, stopping at the first exception.\<close>

datatype manager_call = AddUser string | AddAssistant string

fun run_calls :: "conversation_manager \<Rightarrow> manager_call list \<Rightarrow> py_exception + conversation_manager" where
  "run_calls m [] = Inr m"
| "run_calls m (AddUser c # cs) =
     (case add_user_message m c of Inl e \<Rightarrow> Inl e | Inr m' \<Rightarrow> run_calls m' cs)"
| "run_calls m (AddAssistant c # cs) =
     (case add_assistant_message m c of Inl e \<Rightarrow> Inl e | Inr m' \<Rightarrow> run_calls m' cs)"

section \<open>first\_ai\_project.py: analyze\_text\<close>

text \<open>
  What a call of the client gives once its first result is read: an exception (of the
  call, of the index \<open>[0]\<close> or of an attribute of an error document) or the values the
  function prints. Detection gives the name of the language and a confidence, sentiment
  the label and its three scores, key phrases a list.
\<close>

datatype 'a call_outcome = CallRaise py_exception | CallResult 'a

record text_client =
  detect_language :: "string list \<Rightarrow> (string \<times> real) call_outcome"
  analyze_sentiment :: "string list \<Rightarrow> (string \<times> real \<times> real \<times> real) call_outcome"
  extract_key_phrases :: "string list \<Rightarrow> string list call_outcome"

text \<open>
  The steps of \<open>analyze_text\<close>: the calls of the client with their documents, and the
  lines printed, one constructor for each \<open>print\<close> of the function with the values it
  formats.
\<close>

datatype analyzer_event =
    DetectLanguage "string list"
  | AnalyzeSentiment "string list"
  | ExtractKeyPhrases "string list"
  | PrintEmptyWarning
  | PrintTruncatedWarning
  | PrintAnalyzing string
  | PrintRule
  | PrintDetecting
  | PrintLanguage string real
  | PrintAnalyzingSentiment
  | PrintSentiment string real real real
  | PrintExtracting
  | PrintKeyPhrases "string list"
  | PrintNoKeyPhrases
  | PrintEnd
  | PrintRateLimit
  | PrintAuthFailed
  | PrintApiError py_exception
  | PrintUnexpected py_exception

text \<open>The two \<open>except\<close> clauses at the end of \<open>analyze_text\<close>.\<close>

fun report :: "py_exception \<Rightarrow> analyzer_event" where
  "report (HttpResponseError status_code) =
     (if status_code = Some 429 then PrintRateLimit
      else if status_code = Some 401 then PrintAuthFailed
      else PrintApiError (HttpResponseError status_code))"
| "report e = PrintUnexpected e"

definition analyze_text :: "text_client \<Rightarrow> string \<Rightarrow> analyzer_event list \<times> (py_exception + unit)" where
  "analyze_text client text0 =
     (if text0 = [] \<or> strip text0 = [] then ([PrintEmptyWarning], Inr ())
      else
        let text = (if length text0 > 5000 then take 5000 text0 else text0);
            warn = (if length text0 > 5000 then [PrintTruncatedWarning] else []);
            display_text = take 50 text @ (if length text > 50 then ''...'' else []);
            start = warn @ [PrintAnalyzing display_text, PrintRule, PrintDetecting, DetectLanguage [text]]
        in
        (case detect_language client [text] of
           CallRaise e \<Rightarrow> (start @ [report e], Inr ())
         | CallResult (language, confidence) \<Rightarrow>
             let ev1 = start @ [PrintLanguage language confidence, PrintAnalyzingSentiment,
                                AnalyzeSentiment [text]]
             in
             (case analyze_sentiment client [text] of
                CallRaise e \<Rightarrow> (ev1 @ [report e], Inr ())
              | CallResult (sentiment, positive, neutral, negative) \<Rightarrow>
                  let ev2 = ev1 @ [PrintSentiment sentiment positive neutral negative,
                                   PrintExtracting, ExtractKeyPhrases [text]]
                  in
                  (case extract_key_phrases client [text] of
                     CallRaise e \<Rightarrow> (ev2 @ [report e], Inr ())
                   | CallResult key_phrases \<Rightarrow>
                       (ev2 @ [if key_phrases \<noteq> [] then PrintKeyPhrases key_phrases
                               else PrintNoKeyPhrases, PrintEnd], Inr ())))))"

section \<open>Reading the events\<close>

text \<open>
  The calls of the service that count as an attempt of a summarization: a
  \<open>begin_analyze_actions\<close> or the \<open>post\<close> that submits a conversation job.
\<close>

fun is_request :: "event \<Rightarrow> bool" where
  "is_request (BeginAnalyzeActions docs actions) = True"
| "is_request (HttpPost url key body) = True"
| "is_request e = False"

definition requests :: "event list \<Rightarrow> nat" where
  "requests tr = length (filter is_request tr)"

text \<open>The documents that \<open>analyze_text\<close> hands to the client, in the order of the calls.\<close>

fun sent_documents :: "analyzer_event list \<Rightarrow> string list" where
  "sent_documents [] = []"
| "sent_documents (DetectLanguage docs # es) = docs @ sent_documents es"
| "sent_documents (AnalyzeSentiment docs # es) = docs @ sent_documents es"
| "sent_documents (ExtractKeyPhrases docs # es) = docs @ sent_documents es"
| "sent_documents (e # es) = sent_documents es"

text \<open>A client whose three calls succeed, to run \<open>analyze_text\<close> on.\<close>

definition sample_client :: text_client where
  "sample_client =
     \<lparr> detect_language = (\<lambda>docs. CallResult (''English'', 1)),
       analyze_sentiment = (\<lambda>docs. CallResult (''positive'', 1, 0, 0)),
       extract_key_phrases = (\<lambda>docs. CallResult []) \<rparr>"

text \<open>
  A manager whose history is in bounds for the system message \<open>sys\<close> and the limit
  \<open>mh\<close>: the list starts with \<open>sys\<close> and has at most \<open>mh + 1\<close> messages.
\<close>

definition bounded_history :: "message \<Rightarrow> int \<Rightarrow> conversation_manager \<Rightarrow> bool" where
  "bounded_history sys mh m =
     (max_history m = mh \<and> messages m \<noteq> [] \<and> hd (messages m) = sys \<and>
      int (length (messages m)) \<le> mh + 1)"

text \<open>
  A summarizer as \<open>__init__\<close> builds it, and answers of the service to run the functions
  on: every attempt failing with the status 429, and a job whose status stays
  \<open>running\<close>.
\<close>

definition sample_summarizer :: summarizer where
  "sample_summarizer =
     \<lparr> endpoint = ''https://example.test'', api_key = ''key'',
       max_retries = 3, retry_delay = 1, rate_limit_delay = 2,
       stats = \<lparr> total_requests = 0, successful_requests = 0, failed_requests = 0,
                  total_characters_processed = 0, average_processing_time = 0 \<rparr> \<rparr>"

definition always_429 :: "nat \<Rightarrow> 'd sdk_outcome" where
  "always_429 attempt = SdkRaise (HttpResponseError (Some 429))"

definition post_accepted :: "nat \<Rightarrow> post_outcome" where
  "post_accepted attempt = PostResponse 202 (Some ''https://example.test/jobs/1'')"

definition post_429 :: "nat \<Rightarrow> post_outcome" where
  "post_429 attempt = PostResponse 429 None"

definition always_running :: "nat \<Rightarrow> nat \<Rightarrow> get_outcome" where
  "always_running attempt i = GetResponse 200 \<lparr> job_status = ''running'', job_tasks = [] \<rparr>"

definition sample_items :: "(string \<rightharpoonup> string) list" where
  "sample_items = [[''text'' \<mapsto> ''Hello'']]"

text \<open>
  An answer to a \<open>get\<close> that ends the polling loop: an exception, a status code that
  \<open>raise_for_status\<close> rejects, or one of the job statuses \<open>succeeded\<close> and
  \<open>failed\<close>.
\<close>

fun ends_poll :: "get_outcome \<Rightarrow> bool" where
  "ends_poll (GetRaise e) = True"
| "ends_poll (GetResponse code d) =
     (raise_for_status code \<or> job_status d = ''succeeded'' \<or> job_status d = ''failed'')"

text \<open>
  A \<open>try\<close> block that may not end, read as one that always ends; used only for runs in
  which every block that is entered does end.
\<close>

definition total_body ::
  "(summarizer \<Rightarrow> nat \<Rightarrow> (event list \<times> summarizer \<times> 'a body_outcome) option) \<Rightarrow>
   event \<Rightarrow> summarizer \<Rightarrow> nat \<Rightarrow> event list \<times> summarizer \<times> 'a body_outcome" where
  "total_body body rq s k = (case body s k of None \<Rightarrow> ([rq], s, BodyBreak) | Some x \<Rightarrow> x)"

text \<open>The exceptions that \<open>except HttpResponseError\<close> catches.\<close>

fun is_http_response_error :: "py_exception \<Rightarrow> bool" where
  "is_http_response_error (HttpResponseError status_code) = True"
| "is_http_response_error e = False"

text \<open>A client whose every call raises the same exception.\<close>

definition always_raises :: "py_exception \<Rightarrow> nat \<Rightarrow> 'd sdk_outcome" where
  "always_raises e attempt = SdkRaise e"

text \<open>The request body that \<open>build_data\<close> makes of the sample items, and a job that succeeds.\<close>

definition sample_body :: conversation_data where
  "sample_body =
     \<lparr> conversationItems =
         [\<lparr> item_text = ''Hello'', item_id = ''1'', item_role = ''Customer'',
            item_participantId = ''Participant_1'' \<rparr>],
       task_aspects = [''issue'', ''resolution'', ''recap''] \<rparr>"

definition get_succeeded :: "nat \<Rightarrow> nat \<Rightarrow> get_outcome" where
  "get_succeeded attempt i = GetResponse 200 \<lparr> job_status = ''succeeded'', job_tasks = [] \<rparr>"

text \<open>Two summarizers with the same retry configuration; their statistics may differ.\<close>

definition same_config :: "summarizer \<Rightarrow> summarizer \<Rightarrow> bool" where
  "same_config s1 s2 =
     (max_retries s1 = max_retries s2 \<and> retry_delay s1 = retry_delay s2 \<and>
      rate_limit_delay s1 = rate_limit_delay s2)"

text \<open>A client whose call succeeds with one sentence, for every document of a batch.\<close>

definition one_sentence :: "nat \<Rightarrow> nat \<Rightarrow> extract_doc_result sdk_outcome" where
  "one_sentence i attempt = SdkResult [[ExtractSentences [(''A sentence.'', 1)]]]"

definition no_kwargs :: kwargs where
  "no_kwargs = \<lparr> kw_sentence_count = None, kw_sort_by = None, kw_summary_length = None,
                  kw_other = [] \<rparr>"

text \<open>
  For a batch: an abstractive client that answers 429 to every attempt on every document,
  and a clock that reads zero for every document.
\<close>

definition every_document_429 :: "nat \<Rightarrow> nat \<Rightarrow> abstract_doc_result sdk_outcome" where
  "every_document_429 i attempt = SdkRaise (HttpResponseError (Some 429))"

definition clock_zero :: "nat \<Rightarrow> real" where
  "clock_zero i = 0"

text \<open>
  A \<open>try\<close> block that is cut before its end, read as one that ends the loop there: the
  events of the loop are the same.
\<close>

definition settled_body ::
  "(summarizer \<Rightarrow> nat \<Rightarrow> event list \<times> summarizer \<times> 'a body_outcome option) \<Rightarrow>
   summarizer \<Rightarrow> nat \<Rightarrow> event list \<times> summarizer \<times> 'a body_outcome" where
  "settled_body body s k =
     (case body s k of (ev, s', None) \<Rightarrow> (ev, s', BodyBreak) | (ev, s', Some b) \<Rightarrow> (ev, s', b))"

text \<open>A service that answers 429 to the first \<open>post\<close> and accepts the job afterwards.\<close>

definition post_429_then_accepted :: "nat \<Rightarrow> post_outcome" where
  "post_429_then_accepted attempt =
     (if attempt = 0 then PostResponse 429 None
      else PostResponse 202 (Some ''https://example.test/jobs/1''))"

section \<open>Whitespace\<close>

lemma strip_blank: "(\<forall>c\<in>set text. isspace c) \<Longrightarrow> strip text = []"
proof -
  assume "\<forall>c\<in>set text. isspace c"
  then have d: "dropWhile isspace text = []" by simp
  show ?thesis unfolding strip_def d by simp
qed

lemma isspace_space: "isspace (CHR '' '')"
  by (simp add: isspace_def)

lemma not_isspace_a: "\<not> isspace (CHR ''a'')"
  by (simp add: isspace_def)

lemma strip_replicate_a: "strip (replicate n (CHR ''a'')) = replicate n (CHR ''a'')"
  by (simp add: strip_def not_isspace_a)

section \<open>analyze\_text: the guard and the truncation\<close>

lemma sent_documents_append: "sent_documents (xs @ ys) = sent_documents xs @ sent_documents ys"
  by (induction xs rule: sent_documents.induct) simp_all

lemma sent_documents_report: "sent_documents [report e] = []"
  by (cases e) simp_all

text \<open>
  C10. A text that is empty or all whitespace makes \<open>analyze_text\<close> print the warning and
  return \<open>None\<close>: nothing is raised and no document reaches the client. A text of more
  than 5000 characters that passes the guard is analyzed, and every document handed to
  the client is the text cut to its first 5000 characters, which are exactly 5000.
\<close>

theorem analyze_text_guard_and_truncation:
  "((\<forall>c\<in>set text. isspace c) \<longrightarrow>
      analyze_text client text = ([PrintEmptyWarning], Inr ()) \<and>
      sent_documents (fst (analyze_text client text)) = []) \<and>
   (5000 < length text \<and> strip text \<noteq> [] \<longrightarrow>
      sent_documents (fst (analyze_text client text)) \<noteq> [] \<and>
      set (sent_documents (fst (analyze_text client text))) = {take 5000 text} \<and>
      length (take 5000 text) = 5000 \<and>
      snd (analyze_text client text) = Inr ())"
proof (intro conjI impI)
  assume blank: "\<forall>c\<in>set text. isspace c"
  then have "strip text = []" by (rule strip_blank)
  then show "analyze_text client text = ([PrintEmptyWarning], Inr ())"
    by (simp add: analyze_text_def)
  then show "sent_documents (fst (analyze_text client text)) = []" by simp
next
  assume long: "5000 < length text \<and> strip text \<noteq> []"
  then have ne: "text \<noteq> []" by auto
  show "length (take 5000 text) = 5000" using long by simp
  show "snd (analyze_text client text) = Inr ()"
    by (simp add: analyze_text_def Let_def split: call_outcome.splits prod.splits)
  show "sent_documents (fst (analyze_text client text)) \<noteq> []"
    using long ne
    by (simp add: analyze_text_def Let_def sent_documents_append split: call_outcome.splits prod.splits)
  show "set (sent_documents (fst (analyze_text client text))) = {take 5000 text}"
    using long ne
    by (simp add: analyze_text_def Let_def sent_documents_append sent_documents_report
        split: call_outcome.splits prod.splits)
qed

theorem analyze_text_guard_and_truncation_witness:
  "isspace (CHR '' '') \<and>
   analyze_text sample_client ''  '' = ([PrintEmptyWarning], Inr ()) \<and>
   5000 < length (replicate 5001 (CHR ''a'')) \<and>
   strip (replicate 5001 (CHR ''a'')) \<noteq> [] \<and>
   set (sent_documents (fst (analyze_text sample_client (replicate 5001 (CHR ''a''))))) =
     {replicate 5000 (CHR ''a'')}"
proof -
  have blank: "\<forall>c\<in>set ''  ''. isspace c" by (simp add: isspace_space)
  have long: "5000 < length (replicate 5001 (CHR ''a'')) \<and> strip (replicate 5001 (CHR ''a'')) \<noteq> []"
    by (simp add: strip_replicate_a)
  show ?thesis
    using analyze_text_guard_and_truncation [of "''  ''" sample_client]
      analyze_text_guard_and_truncation [of "replicate 5001 (CHR ''a'')" sample_client]
      blank long
    by (simp add: isspace_space)
qed

section \<open>The conversation manager: trimming the history\<close>

text \<open>
  With a limit of at least one, trimming a list that is one message too long keeps the
  first message and the last \<open>max_history\<close> ones, and a sequence of calls keeps the
  history in bounds.
\<close>

lemma trim_history_positive:
  assumes "1 \<le> max_history m" "messages m \<noteq> []" "int (length (messages m)) \<le> max_history m + 2"
  shows "\<exists>m'. trim_history m = Inr m' \<and> max_history m' = max_history m \<and>
      hd (messages m') = hd (messages m) \<and> messages m' \<noteq> [] \<and>
      int (length (messages m')) \<le> max_history m + 1 \<and>
      (int (length (messages m)) > max_history m + 1 \<longrightarrow>
         messages m' = hd (messages m) # drop (length (messages m) - nat (max_history m)) (messages m))"
proof (cases "messages m")
  case Nil
  with assms show ?thesis by simp
next
  case (Cons a list)
  have n: "nat (1 + int (length list) - max_history m) = Suc (length list) - nat (max_history m)"
    using assms(1) by arith
  show ?thesis using assms Cons
    by (auto simp: trim_history_def slice_from_def n)
qed

lemma add_message_bounded:
  assumes "1 \<le> mh" "bounded_history sys mh m"
  shows "\<exists>m'. trim_history (m \<lparr> messages := messages m @ [x] \<rparr>) = Inr m' \<and> bounded_history sys mh m'"
proof -
  let ?m = "m \<lparr> messages := messages m @ [x] \<rparr>"
  have "1 \<le> max_history ?m" "messages ?m \<noteq> []" "int (length (messages ?m)) \<le> max_history ?m + 2"
    using assms by (auto simp: bounded_history_def)
  from trim_history_positive [OF this] obtain m' where
    "trim_history ?m = Inr m'" "max_history m' = max_history ?m"
    "hd (messages m') = hd (messages ?m)" "messages m' \<noteq> []"
    "int (length (messages m')) \<le> max_history ?m + 1" by blast
  then show ?thesis using assms by (auto simp: bounded_history_def)
qed

lemma run_calls_bounded:
  "1 \<le> mh \<Longrightarrow> bounded_history sys mh m \<Longrightarrow>
   \<exists>m'. run_calls m cs = Inr m' \<and> bounded_history sys mh m'"
proof (induction cs arbitrary: m)
  case Nil
  then show ?case by simp
next
  case (Cons c cs)
  show ?case
  proof (cases c)
    case (AddUser x)
    from add_message_bounded [OF Cons.prems, of "\<lparr> role = ''user'', content = x \<rparr>"]
    obtain m1 where m1: "add_user_message m x = Inr m1" "bounded_history sys mh m1"
      by (auto simp: add_user_message_def)
    from Cons.IH [OF Cons.prems(1) m1(2)] show ?thesis using AddUser m1(1) by simp
  next
    case (AddAssistant x)
    from add_message_bounded [OF Cons.prems, of "\<lparr> role = ''assistant'', content = x \<rparr>"]
    obtain m1 where m1: "add_assistant_message m x = Inr m1" "bounded_history sys mh m1"
      by (auto simp: add_assistant_message_def)
    from Cons.IH [OF Cons.prems(1) m1(2)] show ?thesis using AddAssistant m1(1) by simp
  qed
qed

text \<open>
  C9. With \<open>max_history = 0\<close> the first \<open>add_user_message\<close> leaves three messages, the
  system message twice and the user message, where the bound \<open>max_history + 1\<close> is one:
  the slice \<open>messages[-0:]\<close> is the whole list, not the last zero messages.
\<close>

theorem add_user_message_zero_history:
  "add_user_message (ConversationManager_init ''sys'' 0) ''hi'' =
     Inr \<lparr> messages = [\<lparr> role = ''system'', content = ''sys'' \<rparr>,
                        \<lparr> role = ''system'', content = ''sys'' \<rparr>,
                        \<lparr> role = ''user'', content = ''hi'' \<rparr>],
           max_history = 0, total_tokens = 0 \<rparr>"
  by (simp add: add_user_message_def ConversationManager_init_def trim_history_def slice_from_def)

section \<open>The retry loop\<close>

lemma requests_simps [simp]:
  "requests [] = 0"
  "requests (e # tr) = (if is_request e then Suc (requests tr) else requests tr)"
  "requests (xs @ ys) = requests xs + requests ys"
  by (simp_all add: requests_def)

text \<open>
  The lemmas of this section are about a \<open>try\<close> block that starts with the same request
  \<open>rq\<close> on every attempt and issues no other one.
\<close>

lemma body_cases:
  assumes one: "\<forall>s k. \<exists>g. fst (body s k) = rq # g \<and> requests g = 0"
  obtains g s' b where "body s k = (rq # g, s', b)" "requests g = 0"
proof -
  from one obtain g where g: "fst (body s k) = rq # g" "requests g = 0" by blast
  then have "body s k = (rq # g, fst (snd (body s k)), snd (snd (body s k)))"
    by (cases "body s k") auto
  with g(2) that show ?thesis by blast
qed

lemma retry_loop_head:
  assumes one: "\<forall>s k. \<exists>g. fst (body s k) = rq # g \<and> requests g = 0"
    and ne: "as \<noteq> []"
  shows "\<exists>t. fst (retry_loop h body s as) = rq # t"
proof (cases as)
  case Nil
  with ne show ?thesis by simp
next
  case (Cons a rest)
  obtain g s' b where b: "body s a = (rq # g, s', b)"
    using one by (rule body_cases)
  show ?thesis unfolding Cons
    using b by (auto split: body_outcome.splits handler_action.splits prod.splits)
qed

lemma retry_loop_requests_le:
  assumes one: "\<forall>s k. \<exists>g. fst (body s k) = rq # g \<and> requests g = 0"
  shows "requests (fst (retry_loop h body s as)) \<le> length as"
proof (induction as arbitrary: s)
  case Nil
  show ?case by simp
next
  case (Cons a rest)
  obtain g s' b where b: "body s a = (rq # g, s', b)" "requests g = 0"
    using one by (rule body_cases)
  have "requests (fst (retry_loop h body s' rest)) \<le> length rest" by (rule Cons.IH)
  then show ?case
    using b by (auto split: body_outcome.splits handler_action.splits prod.splits)
qed

text \<open>
  When attempt number \<open>i\<close> of the list is made, the run is the events of the earlier
  attempts, with \<open>i\<close> requests, followed by the run of the loop from that attempt on.
\<close>

lemma retry_loop_reach:
  assumes one: "\<forall>s k. \<exists>g. fst (body s k) = rq # g \<and> requests g = 0"
    and rq: "is_request rq"
    and same: "\<forall>s k s' e ev. body s k = (ev, s', BodyRaise e) \<longrightarrow> s' = s"
  shows "i < requests (fst (retry_loop h body s as)) \<Longrightarrow>
         \<exists>pre. requests pre = i \<and>
               fst (retry_loop h body s as) = pre @ fst (retry_loop h body s (drop i as)) \<and>
               snd (retry_loop h body s as) = snd (retry_loop h body s (drop i as))"
proof (induction as arbitrary: i)
  case Nil
  then show ?case by simp
next
  case (Cons a rest)
  show ?case
  proof (cases i)
    case 0
    then show ?thesis by simp
  next
    case (Suc j)
    obtain g s' b where b: "body s a = (rq # g, s', b)" "requests g = 0"
      using one by (rule body_cases)
    show ?thesis
    proof (cases b)
      case (BodyReturn r)
      with b Cons.prems Suc rq show ?thesis by simp
    next
      case BodyBreak
      with b Cons.prems Suc rq show ?thesis by simp
    next
      case (BodyRaise e)
      with b same have s': "s' = s" by blast
      show ?thesis
      proof (cases "h s a e")
        case Reraise
        with b BodyRaise s' Cons.prems Suc rq show ?thesis by simp
      next
        case (SleepAndContinue d)
        obtain tr s2 r where rest: "retry_loop h body s rest = (tr, s2, r)"
          by (cases "retry_loop h body s rest") auto
        have whole: "retry_loop h body s (a # rest) = (rq # g @ Sleep d # tr, s2, r)"
          using b BodyRaise s' SleepAndContinue rest by simp
        have "j < requests (fst (retry_loop h body s rest))"
          using Cons.prems Suc whole rest rq b(2) by simp
        from Cons.IH [OF this] obtain pre where
          pre: "requests pre = j"
            "fst (retry_loop h body s rest) = pre @ fst (retry_loop h body s (drop j rest))"
            "snd (retry_loop h body s rest) = snd (retry_loop h body s (drop j rest))"
          by blast
        have "requests (rq # g @ Sleep d # pre) = i" using pre(1) Suc rq b(2) by simp
        moreover have "fst (retry_loop h body s (a # rest)) =
            (rq # g @ Sleep d # pre) @ fst (retry_loop h body s (drop i (a # rest)))"
          using whole rest pre(2) Suc by simp
        moreover have "snd (retry_loop h body s (a # rest)) = snd (retry_loop h body s (drop i (a # rest)))"
          using whole rest pre(3) Suc by simp
        ultimately show ?thesis by blast
      qed
    qed
  qed
qed

text \<open>
  An attempt that is made and whose exception the handler answers with a sleep: the sleep
  follows the events of the attempt, and the request follows the sleep when the list of
  attempts goes on.
\<close>

lemma retry_loop_retried:
  assumes one: "\<forall>s k. \<exists>g. fst (body s k) = rq # g \<and> requests g = 0"
    and rq: "is_request rq"
    and same: "\<forall>s k s' e ev. body s k = (ev, s', BodyRaise e) \<longrightarrow> s' = s"
    and reach: "i < requests (fst (retry_loop h body s as))"
    and b: "body s (as ! i) = (ev, s', BodyRaise e)"
    and act: "h s (as ! i) e = SleepAndContinue d"
  shows "\<exists>pre post. fst (retry_loop h body s as) = pre @ ev @ Sleep d # post \<and> requests pre = i \<and>
           (Suc i < length as \<longrightarrow> (\<exists>post'. post = rq # post'))"
proof -
  have "requests (fst (retry_loop h body s as)) \<le> length as"
    using one by (rule retry_loop_requests_le)
  with reach have i: "i < length as" by simp
  then have split: "drop i as = as ! i # drop (Suc i) as"
    by (simp add: Cons_nth_drop_Suc)
  from b same have s': "s' = s" by blast
  from retry_loop_reach [OF one rq same reach] obtain pre where
    pre: "requests pre = i"
      "fst (retry_loop h body s as) = pre @ fst (retry_loop h body s (drop i as))"
    by blast
  let ?post = "fst (retry_loop h body s (drop (Suc i) as))"
  have "fst (retry_loop h body s (drop i as)) = ev @ Sleep d # ?post"
    unfolding split using b s' act by (simp split: prod.splits)
  with pre(2) have whole: "fst (retry_loop h body s as) = pre @ ev @ Sleep d # ?post" by simp
  have "\<exists>post'. ?post = rq # post'" if "Suc i < length as"
  proof -
    from that have "drop (Suc i) as \<noteq> []" by simp
    with one show ?thesis by (rule retry_loop_head)
  qed
  with whole pre(1) show ?thesis by blast
qed

text \<open>
  An attempt that is made and whose exception the handler raises again: its events are
  the last ones, and the loop ends with that exception.
\<close>

lemma retry_loop_raised:
  assumes one: "\<forall>s k. \<exists>g. fst (body s k) = rq # g \<and> requests g = 0"
    and rq: "is_request rq"
    and same: "\<forall>s k s' e ev. body s k = (ev, s', BodyRaise e) \<longrightarrow> s' = s"
    and reach: "i < requests (fst (retry_loop h body s as))"
    and b: "body s (as ! i) = (ev, s', BodyRaise e)"
    and act: "h s (as ! i) e = Reraise"
  shows "\<exists>pre. fst (retry_loop h body s as) = pre @ ev \<and> requests pre = i \<and>
           requests (fst (retry_loop h body s as)) = Suc i \<and>
           snd (retry_loop h body s as) = (s, LoopRaise e)"
proof -
  have "requests (fst (retry_loop h body s as)) \<le> length as"
    using one by (rule retry_loop_requests_le)
  with reach have i: "i < length as" by simp
  then have split: "drop i as = as ! i # drop (Suc i) as"
    by (simp add: Cons_nth_drop_Suc)
  from b same have s': "s' = s" by blast
  from one obtain g where "fst (body s (as ! i)) = rq # g" "requests g = 0" by blast
  with b rq have ev: "requests ev = Suc 0" by auto
  from retry_loop_reach [OF one rq same reach] obtain pre where
    pre: "requests pre = i"
      "fst (retry_loop h body s as) = pre @ fst (retry_loop h body s (drop i as))"
      "snd (retry_loop h body s as) = snd (retry_loop h body s (drop i as))"
    by blast
  have "retry_loop h body s (drop i as) = (ev, s, LoopRaise e)"
    unfolding split using b s' act by simp
  with pre ev show ?thesis by simp
qed

text \<open>
  A loop that ends with an exception got it from its last attempt, and the handler chose
  to raise it again.
\<close>

lemma retry_loop_raise_origin:
  assumes one: "\<forall>s k. \<exists>g. fst (body s k) = rq # g \<and> requests g = 0"
    and rq: "is_request rq"
    and same: "\<forall>s k s' e ev. body s k = (ev, s', BodyRaise e) \<longrightarrow> s' = s"
  shows "snd (snd (retry_loop h body s as)) = LoopRaise e \<Longrightarrow>
         \<exists>i ev. i < length as \<and> requests (fst (retry_loop h body s as)) = Suc i \<and>
                body s (as ! i) = (ev, s, BodyRaise e) \<and> h s (as ! i) e = Reraise"
proof (induction as)
  case Nil
  then show ?case by simp
next
  case (Cons a rest)
  obtain g s' b where b: "body s a = (rq # g, s', b)" "requests g = 0"
    using one by (rule body_cases)
  show ?case
  proof (cases b)
    case (BodyReturn r)
    with b Cons.prems show ?thesis by simp
  next
    case BodyBreak
    with b Cons.prems show ?thesis by simp
  next
    case (BodyRaise e')
    with b same have s': "s' = s" by blast
    show ?thesis
    proof (cases "h s a e'")
      case Reraise
      with b BodyRaise s' Cons.prems have "e' = e" by simp
      with b BodyRaise s' Reraise rq have
        "0 < length (a # rest) \<and> requests (fst (retry_loop h body s (a # rest))) = Suc 0 \<and>
         body s ((a # rest) ! 0) = (rq # g, s, BodyRaise e) \<and> h s ((a # rest) ! 0) e = Reraise"
        by simp
      then show ?thesis by blast
    next
      case (SleepAndContinue d)
      obtain tr s2 r where rest: "retry_loop h body s rest = (tr, s2, r)"
        by (cases "retry_loop h body s rest") auto
      have whole: "retry_loop h body s (a # rest) = (rq # g @ Sleep d # tr, s2, r)"
        using b BodyRaise s' SleepAndContinue rest by simp
      with Cons.prems rest have "snd (snd (retry_loop h body s rest)) = LoopRaise e" by simp
      from Cons.IH [OF this] obtain i ev where
        i: "i < length rest" "requests (fst (retry_loop h body s rest)) = Suc i"
          "body s (rest ! i) = (ev, s, BodyRaise e)" "h s (rest ! i) e = Reraise"
        by blast
      have "Suc i < length (a # rest) \<and>
            requests (fst (retry_loop h body s (a # rest))) = Suc (Suc i) \<and>
            body s ((a # rest) ! Suc i) = (ev, s, BodyRaise e) \<and> h s ((a # rest) ! Suc i) e = Reraise"
        using i whole rest rq b(2) by simp
      then show ?thesis by blast
    qed
  qed
qed

section \<open>Extractive and abstractive summarization: the attempts\<close>

lemma finish_fst [simp]: "fst (finish n elapsed res) = fst res"
  by (cases res) (auto simp: finish_def split: loop_outcome.splits)

lemma extractive_attempt_events:
  "\<forall>s k. \<exists>g. fst (extractive_attempt client elapsed text action s k) =
            BeginAnalyzeActions [text] [action] # g \<and> requests g = 0"
  by (simp add: extractive_attempt_def split: sdk_outcome.splits prod.splits)

lemma abstractive_attempt_events:
  "\<forall>s k. \<exists>g. fst (abstractive_attempt client elapsed text action s k) =
            BeginAnalyzeActions [text] [action] # g \<and> requests g = 0"
  by (simp add: abstractive_attempt_def split: sdk_outcome.splits prod.splits)

lemma upt_nonempty: "0 < n \<Longrightarrow> [0 ..< n] \<noteq> []"
  by simp

lemma extract_results_raise_state:
  "extract_results s elapsed text result = (s', BodyRaise e) \<Longrightarrow> s' = s"
  by (induction s elapsed "text" result rule: extract_results.induct) auto

lemma abstract_results_raise_state:
  "abstract_results s elapsed text result = (s', BodyRaise e) \<Longrightarrow> s' = s"
  by (induction s elapsed "text" result rule: abstract_results.induct) auto

lemma extractive_attempt_raise_state:
  "\<forall>s k s' e ev. extractive_attempt client elapsed text action s k = (ev, s', BodyRaise e) \<longrightarrow> s' = s"
  by (auto simp: extractive_attempt_def split: sdk_outcome.splits prod.splits
      dest: extract_results_raise_state)

lemma abstractive_attempt_raise_state:
  "\<forall>s k s' e ev. abstractive_attempt client elapsed text action s k = (ev, s', BodyRaise e) \<longrightarrow> s' = s"
  by (auto simp: abstractive_attempt_def split: sdk_outcome.splits prod.splits
      dest: abstract_results_raise_state)

lemma extractive_attempt_raise:
  "client k = SdkRaise e \<Longrightarrow>
   extractive_attempt client elapsed text action s k = ([BeginAnalyzeActions [text] [action]], s, BodyRaise e)"
  by (simp add: extractive_attempt_def)

lemma abstractive_attempt_raise:
  "client k = SdkRaise e \<Longrightarrow>
   abstractive_attempt client elapsed text action s k = ([BeginAnalyzeActions [text] [action]], s, BodyRaise e)"
  by (simp add: abstractive_attempt_def)

text \<open>
  A run of \<open>extractive_summarization\<close> or \<open>abstractive_summarization\<close> that has
  events is a run of the retry loop.
\<close>

lemma extractive_events:
  "fst (extractive_summarization s client elapsed text sentence_count sort_by) \<noteq> [] \<Longrightarrow>
   extractive_summarization s client elapsed text sentence_count sort_by =
     finish (length text) elapsed
       (retry_loop sdk_handler
          (extractive_attempt client elapsed text (ExtractiveSummaryAction sentence_count sort_by))
          s [0 ..< max_retries s])"
  by (auto simp: extractive_summarization_def split: if_splits)

lemma abstractive_events:
  "fst (abstractive_summarization s client elapsed text summary_length) \<noteq> [] \<Longrightarrow>
   abstractive_summarization s client elapsed text summary_length =
     finish (length text) elapsed
       (retry_loop sdk_handler
          (abstractive_attempt client elapsed text (AbstractiveSummaryAction summary_length))
          s [0 ..< max_retries s])"
  by (auto simp: abstractive_summarization_def split: if_splits)

lemma finish_outcome:
  "snd (snd (finish n elapsed res)) =
     (case snd (snd res) of LoopReturn r \<Rightarrow> Inr (Some r) | LoopDone \<Rightarrow> Inr None | LoopRaise e \<Rightarrow> Inl e)"
  by (cases res) (auto simp: finish_def split: loop_outcome.splits)

lemma requests_pos_nonempty: "k < requests tr \<Longrightarrow> tr \<noteq> []"
  by auto

section \<open>Validation of the inputs\<close>

text \<open>
  C6. A text that is empty or all whitespace makes \<open>extractive_summarization\<close> and
  \<open>abstractive_summarization\<close> raise \<open>ValueError\<close> with the message
  \<open>Input text cannot be empty\<close>, with no event at all, so before any call of the service;
  an empty list of conversation items makes \<open>conversation_summarization\<close> raise
  \<open>ValueError\<close> in the same way. Each of them counts one failed request.
\<close>

theorem empty_input_raises:
  "((\<forall>c\<in>set text. isspace c) \<longrightarrow>
      extractive_summarization s client elapsed text sentence_count sort_by =
        ([], update_stats s (length text) elapsed False,
         Inl (ValueError ''Input text cannot be empty'')) \<and>
      abstractive_summarization s client' elapsed text summary_length =
        ([], update_stats s (length text) elapsed False,
         Inl (ValueError ''Input text cannot be empty''))) \<and>
   conversation_summarization s post get elapsed [] summary_aspects =
     Some ([], update_stats s 0 elapsed False,
           Inl (ValueError ''Conversation items cannot be empty''))"
proof (intro conjI impI)
  assume "\<forall>c\<in>set text. isspace c"
  then have blank: "strip text = []" by (rule strip_blank)
  show "extractive_summarization s client elapsed text sentence_count sort_by =
        ([], update_stats s (length text) elapsed False,
         Inl (ValueError ''Input text cannot be empty''))"
    by (simp add: extractive_summarization_def finish_def blank)
  show "abstractive_summarization s client' elapsed text summary_length =
        ([], update_stats s (length text) elapsed False,
         Inl (ValueError ''Input text cannot be empty''))"
    by (simp add: abstractive_summarization_def finish_def blank)
next
  show "conversation_summarization s post get elapsed [] summary_aspects =
     Some ([], update_stats s 0 elapsed False,
           Inl (ValueError ''Conversation items cannot be empty''))"
    by (simp add: conversation_summarization_def finish_conversation_def)
qed

theorem empty_input_raises_witness:
  "isspace (CHR '' '') \<and>
   fst (extractive_summarization sample_summarizer always_429 0 ''  '' 3 ''Rank'') = [] \<and>
   snd (snd (extractive_summarization sample_summarizer always_429 0 ''  '' 3 ''Rank'')) =
     Inl (ValueError ''Input text cannot be empty'') \<and>
   snd (snd (abstractive_summarization sample_summarizer always_429 0 ''  '' ''medium'')) =
     Inl (ValueError ''Input text cannot be empty'')"
proof -
  have blank: "\<forall>c\<in>set ''  ''. isspace c" by (simp add: isspace_space)
  show ?thesis
    using empty_input_raises [of "''  ''" sample_summarizer always_429 0 3 "''Rank''" always_429 "''medium''"]
      blank
    by (simp add: isspace_space)
qed

text \<open>
  C5. A \<open>sentence_count\<close> outside 1 to 20 makes \<open>extractive_summarization\<close> raise
  \<open>ValueError\<close> with no event at all, so before any request; when the text passes its own
  check the message is the one of the sentence count. With a \<open>sentence_count\<close> from 1
  to 20 and a text that passes its check nothing is raised by the validation: the first
  request is made (when \<open>max_retries\<close> is positive); and whenever such a call ends with
  no event, it is the check of the text that raised, not the one of the sentence count.
\<close>

theorem sentence_count_validation:
  "(\<not> (1 \<le> sentence_count \<and> sentence_count \<le> 20) \<longrightarrow>
      fst (extractive_summarization s client elapsed text sentence_count sort_by) = [] \<and>
      (\<exists>message. snd (snd (extractive_summarization s client elapsed text sentence_count sort_by)) =
         Inl (ValueError message)) \<and>
      (text \<noteq> [] \<and> strip text \<noteq> [] \<longrightarrow>
         snd (snd (extractive_summarization s client elapsed text sentence_count sort_by)) =
           Inl (ValueError ''Sentence count must be between 1 and 20''))) \<and>
   (1 \<le> sentence_count \<and> sentence_count \<le> 20 \<and> 0 < max_retries s \<longrightarrow>
      (text \<noteq> [] \<and> strip text \<noteq> [] \<longrightarrow>
         (\<exists>tr. fst (extractive_summarization s client elapsed text sentence_count sort_by) =
            BeginAnalyzeActions [text] [ExtractiveSummaryAction sentence_count sort_by] # tr)) \<and>
      (fst (extractive_summarization s client elapsed text sentence_count sort_by) = [] \<longrightarrow>
         snd (snd (extractive_summarization s client elapsed text sentence_count sort_by)) =
           Inl (ValueError ''Input text cannot be empty'')))"
proof -
  let ?run = "extractive_summarization s client elapsed text sentence_count sort_by"
  let ?rq = "BeginAnalyzeActions [text] [ExtractiveSummaryAction sentence_count sort_by]"
  have outside: "fst ?run = [] \<and> (\<exists>message. snd (snd ?run) = Inl (ValueError message)) \<and>
      (text \<noteq> [] \<and> strip text \<noteq> [] \<longrightarrow>
         snd (snd ?run) = Inl (ValueError ''Sentence count must be between 1 and 20''))"
    if "\<not> (1 \<le> sentence_count \<and> sentence_count \<le> 20)"
    using that by (simp add: extractive_summarization_def finish_def)
  have started: "\<exists>tr. fst ?run = ?rq # tr"
    if "1 \<le> sentence_count \<and> sentence_count \<le> 20" "0 < max_retries s" "text \<noteq> [] \<and> strip text \<noteq> []"
  proof -
    have "[0 ..< max_retries s] \<noteq> []" using that(2) by simp
    from retry_loop_head [OF extractive_attempt_events this]
    show ?thesis using that(1,3) by (simp add: extractive_summarization_def)
  qed
  have silent: "snd (snd ?run) = Inl (ValueError ''Input text cannot be empty'')"
    if "1 \<le> sentence_count \<and> sentence_count \<le> 20" "0 < max_retries s" "fst ?run = []"
  proof (cases "text \<noteq> [] \<and> strip text \<noteq> []")
    case True
    from started [OF that(1,2) True] that(3) show ?thesis by simp
  next
    case False
    then show ?thesis by (auto simp: extractive_summarization_def finish_def)
  qed
  from outside started silent show ?thesis by blast
qed

theorem sentence_count_validation_witness:
  "\<not> (1 \<le> (0::int) \<and> (0::int) \<le> 20) \<and>
   fst (extractive_summarization sample_summarizer always_429 0 ''ab'' 0 ''Rank'') = [] \<and>
   snd (snd (extractive_summarization sample_summarizer always_429 0 ''ab'' 0 ''Rank'')) =
     Inl (ValueError ''Sentence count must be between 1 and 20'') \<and>
   0 < max_retries sample_summarizer \<and> strip ''ab'' \<noteq> [] \<and>
   hd (fst (extractive_summarization sample_summarizer always_429 0 ''ab'' 3 ''Rank'')) =
     BeginAnalyzeActions [''ab''] [ExtractiveSummaryAction 3 ''Rank''] \<and>
   fst (extractive_summarization sample_summarizer always_429 0 ''  '' 3 ''Rank'') = [] \<and>
   snd (snd (extractive_summarization sample_summarizer always_429 0 ''  '' 3 ''Rank'')) =
     Inl (ValueError ''Input text cannot be empty'')"
proof -
  have retries: "0 < max_retries sample_summarizer" by (simp add: sample_summarizer_def)
  have nonblank: "''ab'' \<noteq> [] \<and> strip ''ab'' \<noteq> []" by (simp add: strip_def isspace_def)
  have blank: "strip ''  '' = []" by (simp add: strip_def isspace_def)
  have silent: "fst (extractive_summarization sample_summarizer always_429 0 ''  '' 3 ''Rank'') = []"
    by (simp add: extractive_summarization_def blank)
  show ?thesis
    using sentence_count_validation [of 0 sample_summarizer always_429 0 "''ab''" "''Rank''"]
      sentence_count_validation [of 3 sample_summarizer always_429 0 "''ab''" "''Rank''"]
      sentence_count_validation [of 3 sample_summarizer always_429 0 "''  ''" "''Rank''"]
      retries nonblank silent
    by auto
qed

section \<open>Rate limits and other failures in the SDK functions\<close>

text \<open>
  The three ways an attempt of the retry loop of \<open>extractive_summarization\<close> can fail,
  for an attempt \<open>k\<close> that is made: the run has more than \<open>k\<close> requests.
\<close>

lemma extractive_retried:
  assumes made: "k < requests (fst (extractive_summarization s client elapsed text sentence_count sort_by))"
    and b: "extractive_attempt client elapsed text (ExtractiveSummaryAction sentence_count sort_by) s k =
              (ev, s', BodyRaise e)"
    and act: "sdk_handler s k e = SleepAndContinue d"
  shows "\<exists>pre post.
           fst (extractive_summarization s client elapsed text sentence_count sort_by) =
             pre @ ev @ Sleep d # post \<and>
           requests pre = k \<and>
           (Suc k < max_retries s \<longrightarrow>
              (\<exists>post'. post = BeginAnalyzeActions [text] [ExtractiveSummaryAction sentence_count sort_by] # post'))"
proof -
  let ?body = "extractive_attempt client elapsed text (ExtractiveSummaryAction sentence_count sort_by)"
  let ?loop = "retry_loop sdk_handler ?body s [0 ..< max_retries s]"
  from made have "fst (extractive_summarization s client elapsed text sentence_count sort_by) \<noteq> []"
    by (rule requests_pos_nonempty)
  then have eq: "extractive_summarization s client elapsed text sentence_count sort_by = finish (length text) elapsed ?loop"
    by (rule extractive_events)
  have run: "fst (extractive_summarization s client elapsed text sentence_count sort_by) = fst ?loop"
    by (simp add: eq)
  with made have reach: "k < requests (fst ?loop)" by simp
  have "requests (fst ?loop) \<le> length [0 ..< max_retries s]"
    using extractive_attempt_events by (rule retry_loop_requests_le)
  with reach have k: "k < max_retries s" by simp
  then have nth: "[0 ..< max_retries s] ! k = k" by simp
  from retry_loop_retried [OF extractive_attempt_events _ extractive_attempt_raise_state reach,
      of ev s' e d] b act nth
  show ?thesis unfolding run by simp
qed

lemma extractive_raised:
  assumes made: "k < requests (fst (extractive_summarization s client elapsed text sentence_count sort_by))"
    and b: "extractive_attempt client elapsed text (ExtractiveSummaryAction sentence_count sort_by) s k =
              (ev, s', BodyRaise e)"
    and act: "sdk_handler s k e = Reraise"
  shows "(\<exists>pre. fst (extractive_summarization s client elapsed text sentence_count sort_by) = pre @ ev \<and>
                requests pre = k) \<and>
         requests (fst (extractive_summarization s client elapsed text sentence_count sort_by)) = Suc k \<and>
         snd (snd (extractive_summarization s client elapsed text sentence_count sort_by)) = Inl e"
proof -
  let ?body = "extractive_attempt client elapsed text (ExtractiveSummaryAction sentence_count sort_by)"
  let ?loop = "retry_loop sdk_handler ?body s [0 ..< max_retries s]"
  from made have ne: "fst (extractive_summarization s client elapsed text sentence_count sort_by) \<noteq> []"
    by (rule requests_pos_nonempty)
  then have eq: "extractive_summarization s client elapsed text sentence_count sort_by = finish (length text) elapsed ?loop"
    by (rule extractive_events)
  have run: "fst (extractive_summarization s client elapsed text sentence_count sort_by) = fst ?loop"
    by (simp add: eq)
  have out: "snd (snd (extractive_summarization s client elapsed text sentence_count sort_by)) =
      (case snd (snd ?loop) of LoopReturn r \<Rightarrow> Inr (Some r) | LoopDone \<Rightarrow> Inr None | LoopRaise e \<Rightarrow> Inl e)"
    by (simp add: eq finish_outcome)
  from run made have reach: "k < requests (fst ?loop)" by simp
  have "requests (fst ?loop) \<le> length [0 ..< max_retries s]"
    using extractive_attempt_events by (rule retry_loop_requests_le)
  with reach have k: "k < max_retries s" by simp
  then have nth: "[0 ..< max_retries s] ! k = k" by simp
  from retry_loop_raised [OF extractive_attempt_events _ extractive_attempt_raise_state reach,
      of ev s' e] b act nth
  show ?thesis unfolding run out by auto
qed

lemma extractive_raise_origin:
  assumes ne: "fst (extractive_summarization s client elapsed text sentence_count sort_by) \<noteq> []"
    and out: "snd (snd (extractive_summarization s client elapsed text sentence_count sort_by)) = Inl e"
  shows "\<exists>k ev. k < max_retries s \<and>
           requests (fst (extractive_summarization s client elapsed text sentence_count sort_by)) = Suc k \<and>
           extractive_attempt client elapsed text (ExtractiveSummaryAction sentence_count sort_by) s k =
             (ev, s, BodyRaise e) \<and>
           sdk_handler s k e = Reraise"
proof -
  let ?body = "extractive_attempt client elapsed text (ExtractiveSummaryAction sentence_count sort_by)"
  let ?loop = "retry_loop sdk_handler ?body s [0 ..< max_retries s]"
  from ne have eq: "extractive_summarization s client elapsed text sentence_count sort_by = finish (length text) elapsed ?loop"
    by (rule extractive_events)
  have run: "fst (extractive_summarization s client elapsed text sentence_count sort_by) = fst ?loop"
    by (simp add: eq)
  from out have "snd (snd ?loop) = LoopRaise e"
    by (simp add: eq finish_outcome split: loop_outcome.splits)
  from retry_loop_raise_origin [OF extractive_attempt_events _ extractive_attempt_raise_state this]
  obtain i ev where i: "i < length [0 ..< max_retries s]" "requests (fst ?loop) = Suc i"
    "?body s ([0 ..< max_retries s] ! i) = (ev, s, BodyRaise e)"
    "sdk_handler s ([0 ..< max_retries s] ! i) e = Reraise"
    by auto
  then have "[0 ..< max_retries s] ! i = i" by simp
  with i run show ?thesis by auto
qed

text \<open>The same three facts for \<open>abstractive_summarization\<close>.\<close>

lemma abstractive_retried:
  assumes made: "k < requests (fst (abstractive_summarization s client elapsed text summary_length))"
    and b: "abstractive_attempt client elapsed text (AbstractiveSummaryAction summary_length) s k =
              (ev, s', BodyRaise e)"
    and act: "sdk_handler s k e = SleepAndContinue d"
  shows "\<exists>pre post.
           fst (abstractive_summarization s client elapsed text summary_length) =
             pre @ ev @ Sleep d # post \<and>
           requests pre = k \<and>
           (Suc k < max_retries s \<longrightarrow>
              (\<exists>post'. post = BeginAnalyzeActions [text] [AbstractiveSummaryAction summary_length] # post'))"
proof -
  let ?body = "abstractive_attempt client elapsed text (AbstractiveSummaryAction summary_length)"
  let ?loop = "retry_loop sdk_handler ?body s [0 ..< max_retries s]"
  from made have "fst (abstractive_summarization s client elapsed text summary_length) \<noteq> []"
    by (rule requests_pos_nonempty)
  then have eq: "abstractive_summarization s client elapsed text summary_length = finish (length text) elapsed ?loop"
    by (rule abstractive_events)
  have run: "fst (abstractive_summarization s client elapsed text summary_length) = fst ?loop"
    by (simp add: eq)
  with made have reach: "k < requests (fst ?loop)" by simp
  have "requests (fst ?loop) \<le> length [0 ..< max_retries s]"
    using abstractive_attempt_events by (rule retry_loop_requests_le)
  with reach have k: "k < max_retries s" by simp
  then have nth: "[0 ..< max_retries s] ! k = k" by simp
  from retry_loop_retried [OF abstractive_attempt_events _ abstractive_attempt_raise_state reach,
      of ev s' e d] b act nth
  show ?thesis unfolding run by simp
qed

lemma abstractive_raised:
  assumes made: "k < requests (fst (abstractive_summarization s client elapsed text summary_length))"
    and b: "abstractive_attempt client elapsed text (AbstractiveSummaryAction summary_length) s k =
              (ev, s', BodyRaise e)"
    and act: "sdk_handler s k e = Reraise"
  shows "(\<exists>pre. fst (abstractive_summarization s client elapsed text summary_length) = pre @ ev \<and>
                requests pre = k) \<and>
         requests (fst (abstractive_summarization s client elapsed text summary_length)) = Suc k \<and>
         snd (snd (abstractive_summarization s client elapsed text summary_length)) = Inl e"
proof -
  let ?body = "abstractive_attempt client elapsed text (AbstractiveSummaryAction summary_length)"
  let ?loop = "retry_loop sdk_handler ?body s [0 ..< max_retries s]"
  from made have ne: "fst (abstractive_summarization s client elapsed text summary_length) \<noteq> []"
    by (rule requests_pos_nonempty)
  then have eq: "abstractive_summarization s client elapsed text summary_length = finish (length text) elapsed ?loop"
    by (rule abstractive_events)
  have run: "fst (abstractive_summarization s client elapsed text summary_length) = fst ?loop"
    by (simp add: eq)
  have out: "snd (snd (abstractive_summarization s client elapsed text summary_length)) =
      (case snd (snd ?loop) of LoopReturn r \<Rightarrow> Inr (Some r) | LoopDone \<Rightarrow> Inr None | LoopRaise e \<Rightarrow> Inl e)"
    by (simp add: eq finish_outcome)
  from run made have reach: "k < requests (fst ?loop)" by simp
  have "requests (fst ?loop) \<le> length [0 ..< max_retries s]"
    using abstractive_attempt_events by (rule retry_loop_requests_le)
  with reach have k: "k < max_retries s" by simp
  then have nth: "[0 ..< max_retries s] ! k = k" by simp
  from retry_loop_raised [OF abstractive_attempt_events _ abstractive_attempt_raise_state reach,
      of ev s' e] b act nth
  show ?thesis unfolding run out by auto
qed

lemma abstractive_raise_origin:
  assumes ne: "fst (abstractive_summarization s client elapsed text summary_length) \<noteq> []"
    and out: "snd (snd (abstractive_summarization s client elapsed text summary_length)) = Inl e"
  shows "\<exists>k ev. k < max_retries s \<and>
           requests (fst (abstractive_summarization s client elapsed text summary_length)) = Suc k \<and>
           abstractive_attempt client elapsed text (AbstractiveSummaryAction summary_length) s k =
             (ev, s, BodyRaise e) \<and>
           sdk_handler s k e = Reraise"
proof -
  let ?body = "abstractive_attempt client elapsed text (AbstractiveSummaryAction summary_length)"
  let ?loop = "retry_loop sdk_handler ?body s [0 ..< max_retries s]"
  from ne have eq: "abstractive_summarization s client elapsed text summary_length = finish (length text) elapsed ?loop"
    by (rule abstractive_events)
  have run: "fst (abstractive_summarization s client elapsed text summary_length) = fst ?loop"
    by (simp add: eq)
  from out have "snd (snd ?loop) = LoopRaise e"
    by (simp add: eq finish_outcome split: loop_outcome.splits)
  from retry_loop_raise_origin [OF abstractive_attempt_events _ abstractive_attempt_raise_state this]
  obtain i ev where i: "i < length [0 ..< max_retries s]" "requests (fst ?loop) = Suc i"
    "?body s ([0 ..< max_retries s] ! i) = (ev, s, BodyRaise e)"
    "sdk_handler s ([0 ..< max_retries s] ! i) e = Reraise"
    by auto
  then have "[0 ..< max_retries s] ! i = i" by simp
  with i run show ?thesis by auto
qed

lemma upt_three: "[0 ..< 3] = [0, 1, 2]"
  by (simp add: upt_rec)

text \<open>
  C4. With the configuration of \<open>__init__\<close> and inputs that pass the validation, when
  each of the three attempts fails with the status 429 the functions
  \<open>extractive_summarization\<close> and \<open>abstractive_summarization\<close> make three requests, sleep
  2, 4 and 8 seconds, and then end without a \<open>return\<close>: the result is \<open>None\<close>, nothing
  is raised, and the summarizer, with its statistics, is the one before the call.
\<close>

theorem rate_limited_throughout_returns_none:
  assumes cfg: "max_retries s = 3 \<and> rate_limit_delay s = 2"
    and nonblank: "text \<noteq> [] \<and> strip text \<noteq> []"
  shows
    "(1 \<le> sentence_count \<and> sentence_count \<le> 20 \<and>
      (\<forall>k<3. client k = SdkRaise (HttpResponseError (Some 429))) \<longrightarrow>
        extractive_summarization s client elapsed text sentence_count sort_by =
          ([BeginAnalyzeActions [text] [ExtractiveSummaryAction sentence_count sort_by], Sleep 2,
            BeginAnalyzeActions [text] [ExtractiveSummaryAction sentence_count sort_by], Sleep 4,
            BeginAnalyzeActions [text] [ExtractiveSummaryAction sentence_count sort_by], Sleep 8],
           s, Inr None)) \<and>
     (summary_length \<in> set [''short'', ''medium'', ''long''] \<and>
      (\<forall>k<3. client' k = SdkRaise (HttpResponseError (Some 429))) \<longrightarrow>
        abstractive_summarization s client' elapsed text summary_length =
          ([BeginAnalyzeActions [text] [AbstractiveSummaryAction summary_length], Sleep 2,
            BeginAnalyzeActions [text] [AbstractiveSummaryAction summary_length], Sleep 4,
            BeginAnalyzeActions [text] [AbstractiveSummaryAction summary_length], Sleep 8],
           s, Inr None))"
proof (intro conjI impI)
  assume a: "1 \<le> sentence_count \<and> sentence_count \<le> 20 \<and>
      (\<forall>k<3. client k = SdkRaise (HttpResponseError (Some 429)))"
  then have c: "client 0 = SdkRaise (HttpResponseError (Some 429))"
    "client (Suc 0) = SdkRaise (HttpResponseError (Some 429))"
    "client 2 = SdkRaise (HttpResponseError (Some 429))"
    by simp_all
  show "extractive_summarization s client elapsed text sentence_count sort_by =
          ([BeginAnalyzeActions [text] [ExtractiveSummaryAction sentence_count sort_by], Sleep 2,
            BeginAnalyzeActions [text] [ExtractiveSummaryAction sentence_count sort_by], Sleep 4,
            BeginAnalyzeActions [text] [ExtractiveSummaryAction sentence_count sort_by], Sleep 8],
           s, Inr None)"
    using a cfg nonblank
    by (simp add: extractive_summarization_def finish_def upt_three extractive_attempt_def c)
next
  assume a: "summary_length \<in> set [''short'', ''medium'', ''long''] \<and>
      (\<forall>k<3. client' k = SdkRaise (HttpResponseError (Some 429)))"
  then have c: "client' 0 = SdkRaise (HttpResponseError (Some 429))"
    "client' (Suc 0) = SdkRaise (HttpResponseError (Some 429))"
    "client' 2 = SdkRaise (HttpResponseError (Some 429))"
    by simp_all
  from a have len: "summary_length \<in> set [''short'', ''medium'', ''long'']" by simp
  show "abstractive_summarization s client' elapsed text summary_length =
          ([BeginAnalyzeActions [text] [AbstractiveSummaryAction summary_length], Sleep 2,
            BeginAnalyzeActions [text] [AbstractiveSummaryAction summary_length], Sleep 4,
            BeginAnalyzeActions [text] [AbstractiveSummaryAction summary_length], Sleep 8],
           s, Inr None)"
    using cfg nonblank len
    by (simp add: abstractive_summarization_def finish_def upt_three abstractive_attempt_def c
        del: set_simps)
qed

theorem rate_limited_throughout_returns_none_witness:
  "max_retries sample_summarizer = 3 \<and> rate_limit_delay sample_summarizer = 2 \<and>
   strip ''ab'' \<noteq> [] \<and>
   always_429 2 = (SdkRaise (HttpResponseError (Some 429)) :: extract_doc_result sdk_outcome) \<and>
   extractive_summarization sample_summarizer always_429 0 ''ab'' 3 ''Rank'' =
     ([BeginAnalyzeActions [''ab''] [ExtractiveSummaryAction 3 ''Rank''], Sleep 2,
       BeginAnalyzeActions [''ab''] [ExtractiveSummaryAction 3 ''Rank''], Sleep 4,
       BeginAnalyzeActions [''ab''] [ExtractiveSummaryAction 3 ''Rank''], Sleep 8],
      sample_summarizer, Inr None) \<and>
   abstractive_summarization sample_summarizer always_429 0 ''ab'' ''medium'' =
     ([BeginAnalyzeActions [''ab''] [AbstractiveSummaryAction ''medium''], Sleep 2,
       BeginAnalyzeActions [''ab''] [AbstractiveSummaryAction ''medium''], Sleep 4,
       BeginAnalyzeActions [''ab''] [AbstractiveSummaryAction ''medium''], Sleep 8],
      sample_summarizer, Inr None)"
proof -
  have cfg: "max_retries sample_summarizer = 3 \<and> rate_limit_delay sample_summarizer = 2"
    by (simp add: sample_summarizer_def)
  have nonblank: "''ab'' \<noteq> [] \<and> strip ''ab'' \<noteq> []" by (simp add: strip_def isspace_def)
  show ?thesis
    using rate_limited_throughout_returns_none [OF cfg nonblank, of 3 always_429 0 "''Rank''" "''medium''" always_429]
      cfg nonblank
    by (simp add: always_429_def)
qed

section \<open>Errors other than a rate limit\<close>

lemma sdk_handler_other:
  "\<not> is_http_response_error e \<Longrightarrow>
   sdk_handler s k e =
     (if int k = int (max_retries s) - 1 then Reraise else SleepAndContinue (retry_delay s * 2 ^ k))"
  by (cases e) simp_all

lemma extractive_attempt_fst:
  "fst (extractive_attempt client elapsed text action s k) = [BeginAnalyzeActions [text] [action]]"
  by (simp add: extractive_attempt_def split: sdk_outcome.splits prod.splits)

lemma extractive_other_failures:
  assumes cfg: "max_retries s = 3 \<and> retry_delay s = 1"
  shows
    "(k < requests (fst (extractive_summarization s client elapsed text sentence_count sort_by)) \<and>
      client k = SdkRaise (HttpResponseError c) \<and> c \<noteq> Some 429 \<longrightarrow>
        snd (snd (extractive_summarization s client elapsed text sentence_count sort_by)) =
          Inl (HttpResponseError c) \<and>
        requests (fst (extractive_summarization s client elapsed text sentence_count sort_by)) = Suc k \<and>
        last (fst (extractive_summarization s client elapsed text sentence_count sort_by)) =
          BeginAnalyzeActions [text] [ExtractiveSummaryAction sentence_count sort_by]) \<and>
     (k < requests (fst (extractive_summarization s client elapsed text sentence_count sort_by)) \<and>
      snd (snd (extractive_attempt client elapsed text
                  (ExtractiveSummaryAction sentence_count sort_by) s k)) = BodyRaise e \<and>
      \<not> is_http_response_error e \<longrightarrow>
        (k < 2 \<longrightarrow>
           (\<exists>pre post.
              fst (extractive_summarization s client elapsed text sentence_count sort_by) =
                pre @ BeginAnalyzeActions [text] [ExtractiveSummaryAction sentence_count sort_by]
                    # Sleep (2 ^ k)
                    # BeginAnalyzeActions [text] [ExtractiveSummaryAction sentence_count sort_by]
                    # post \<and>
              requests pre = k)) \<and>
        (k = 2 \<longrightarrow>
           snd (snd (extractive_summarization s client elapsed text sentence_count sort_by)) = Inl e \<and>
           requests (fst (extractive_summarization s client elapsed text sentence_count sort_by)) = 3 \<and>
           last (fst (extractive_summarization s client elapsed text sentence_count sort_by)) =
             BeginAnalyzeActions [text] [ExtractiveSummaryAction sentence_count sort_by])) \<and>
     (fst (extractive_summarization s client elapsed text sentence_count sort_by) \<noteq> [] \<and>
      snd (snd (extractive_summarization s client elapsed text sentence_count sort_by)) = Inl e \<and>
      \<not> is_http_response_error e \<longrightarrow>
        requests (fst (extractive_summarization s client elapsed text sentence_count sort_by)) = 3)"
proof -
  let ?run = "extractive_summarization s client elapsed text sentence_count sort_by"
  let ?action = "ExtractiveSummaryAction sentence_count sort_by"
  let ?rq = "BeginAnalyzeActions [text] [?action]"
  let ?at = "extractive_attempt client elapsed text ?action s"
  have http: "snd (snd ?run) = Inl (HttpResponseError c) \<and> requests (fst ?run) = Suc k \<and>
      last (fst ?run) = ?rq"
    if made: "k < requests (fst ?run)" and c: "client k = SdkRaise (HttpResponseError c)" "c \<noteq> Some 429"
  proof -
    have b: "?at k = ([?rq], s, BodyRaise (HttpResponseError c))"
      using c(1) by (rule extractive_attempt_raise)
    have act: "sdk_handler s k (HttpResponseError c) = Reraise" using c(2) by simp
    from extractive_raised [OF made b act] show ?thesis by auto
  qed
  have body: "\<exists>s'. ?at k = ([?rq], s', BodyRaise e)" if "snd (snd (?at k)) = BodyRaise e"
    using that extractive_attempt_fst [of client elapsed "text" ?action s k]
    by (cases "?at k") auto
  have early: "\<exists>pre post. fst ?run = pre @ ?rq # Sleep (2 ^ k) # ?rq # post \<and> requests pre = k"
    if made: "k < requests (fst ?run)" and e: "snd (snd (?at k)) = BodyRaise e" "\<not> is_http_response_error e"
      and k: "k < 2"
  proof -
    from body [OF e(1)] obtain s' where b: "?at k = ([?rq], s', BodyRaise e)" by blast
    have act: "sdk_handler s k e = SleepAndContinue (2 ^ k)"
      using e(2) k cfg by (simp add: sdk_handler_other)
    from extractive_retried [OF made b act] k cfg show ?thesis by auto
  qed
  have final: "snd (snd ?run) = Inl e \<and> requests (fst ?run) = 3 \<and> last (fst ?run) = ?rq"
    if made: "k < requests (fst ?run)" and e: "snd (snd (?at k)) = BodyRaise e" "\<not> is_http_response_error e"
      and k: "k = 2"
  proof -
    from body [OF e(1)] obtain s' where b: "?at k = ([?rq], s', BodyRaise e)" by blast
    have act: "sdk_handler s k e = Reraise"
      using e(2) k cfg by (simp add: sdk_handler_other)
    from extractive_raised [OF made b act] k show ?thesis by auto
  qed
  have origin: "requests (fst ?run) = 3"
    if ne: "fst ?run \<noteq> []" and out: "snd (snd ?run) = Inl e" and e: "\<not> is_http_response_error e"
  proof -
    from extractive_raise_origin [OF ne out] obtain j where
      j: "j < max_retries s" "requests (fst ?run) = Suc j" "sdk_handler s j e = Reraise" by blast
    from j(3) e cfg have "int j = 2" by (simp add: sdk_handler_other split: if_splits)
    with j(2) show ?thesis by simp
  qed
  from http early final origin show ?thesis by blast
qed

lemma abstractive_attempt_fst:
  "fst (abstractive_attempt client elapsed text action s k) = [BeginAnalyzeActions [text] [action]]"
  by (simp add: abstractive_attempt_def split: sdk_outcome.splits prod.splits)

lemma abstractive_other_failures:
  assumes cfg: "max_retries s = 3 \<and> retry_delay s = 1"
  shows
    "(k < requests (fst (abstractive_summarization s client elapsed text summary_length)) \<and>
      client k = SdkRaise (HttpResponseError c) \<and> c \<noteq> Some 429 \<longrightarrow>
        snd (snd (abstractive_summarization s client elapsed text summary_length)) =
          Inl (HttpResponseError c) \<and>
        requests (fst (abstractive_summarization s client elapsed text summary_length)) = Suc k \<and>
        last (fst (abstractive_summarization s client elapsed text summary_length)) =
          BeginAnalyzeActions [text] [AbstractiveSummaryAction summary_length]) \<and>
     (k < requests (fst (abstractive_summarization s client elapsed text summary_length)) \<and>
      snd (snd (abstractive_attempt client elapsed text
                  (AbstractiveSummaryAction summary_length) s k)) = BodyRaise e \<and>
      \<not> is_http_response_error e \<longrightarrow>
        (k < 2 \<longrightarrow>
           (\<exists>pre post.
              fst (abstractive_summarization s client elapsed text summary_length) =
                pre @ BeginAnalyzeActions [text] [AbstractiveSummaryAction summary_length]
                    # Sleep (2 ^ k)
                    # BeginAnalyzeActions [text] [AbstractiveSummaryAction summary_length]
                    # post \<and>
              requests pre = k)) \<and>
        (k = 2 \<longrightarrow>
           snd (snd (abstractive_summarization s client elapsed text summary_length)) = Inl e \<and>
           requests (fst (abstractive_summarization s client elapsed text summary_length)) = 3 \<and>
           last (fst (abstractive_summarization s client elapsed text summary_length)) =
             BeginAnalyzeActions [text] [AbstractiveSummaryAction summary_length])) \<and>
     (fst (abstractive_summarization s client elapsed text summary_length) \<noteq> [] \<and>
      snd (snd (abstractive_summarization s client elapsed text summary_length)) = Inl e \<and>
      \<not> is_http_response_error e \<longrightarrow>
        requests (fst (abstractive_summarization s client elapsed text summary_length)) = 3)"
proof -
  let ?run = "abstractive_summarization s client elapsed text summary_length"
  let ?action = "AbstractiveSummaryAction summary_length"
  let ?rq = "BeginAnalyzeActions [text] [?action]"
  let ?at = "abstractive_attempt client elapsed text ?action s"
  have http: "snd (snd ?run) = Inl (HttpResponseError c) \<and> requests (fst ?run) = Suc k \<and>
      last (fst ?run) = ?rq"
    if made: "k < requests (fst ?run)" and c: "client k = SdkRaise (HttpResponseError c)" "c \<noteq> Some 429"
  proof -
    have b: "?at k = ([?rq], s, BodyRaise (HttpResponseError c))"
      using c(1) by (rule abstractive_attempt_raise)
    have act: "sdk_handler s k (HttpResponseError c) = Reraise" using c(2) by simp
    from abstractive_raised [OF made b act] show ?thesis by auto
  qed
  have body: "\<exists>s'. ?at k = ([?rq], s', BodyRaise e)" if "snd (snd (?at k)) = BodyRaise e"
    using that abstractive_attempt_fst [of client elapsed "text" ?action s k]
    by (cases "?at k") auto
  have early: "\<exists>pre post. fst ?run = pre @ ?rq # Sleep (2 ^ k) # ?rq # post \<and> requests pre = k"
    if made: "k < requests (fst ?run)" and e: "snd (snd (?at k)) = BodyRaise e" "\<not> is_http_response_error e"
      and k: "k < 2"
  proof -
    from body [OF e(1)] obtain s' where b: "?at k = ([?rq], s', BodyRaise e)" by blast
    have act: "sdk_handler s k e = SleepAndContinue (2 ^ k)"
      using e(2) k cfg by (simp add: sdk_handler_other)
    from abstractive_retried [OF made b act] k cfg show ?thesis by auto
  qed
  have final: "snd (snd ?run) = Inl e \<and> requests (fst ?run) = 3 \<and> last (fst ?run) = ?rq"
    if made: "k < requests (fst ?run)" and e: "snd (snd (?at k)) = BodyRaise e" "\<not> is_http_response_error e"
      and k: "k = 2"
  proof -
    from body [OF e(1)] obtain s' where b: "?at k = ([?rq], s', BodyRaise e)" by blast
    have act: "sdk_handler s k e = Reraise"
      using e(2) k cfg by (simp add: sdk_handler_other)
    from abstractive_raised [OF made b act] k show ?thesis by auto
  qed
  have origin: "requests (fst ?run) = 3"
    if ne: "fst ?run \<noteq> []" and out: "snd (snd ?run) = Inl e" and e: "\<not> is_http_response_error e"
  proof -
    from abstractive_raise_origin [OF ne out] obtain j where
      j: "j < max_retries s" "requests (fst ?run) = Suc j" "sdk_handler s j e = Reraise" by blast
    from j(3) e cfg have "int j = 2" by (simp add: sdk_handler_other split: if_splits)
    with j(2) show ?thesis by simp
  qed
  from http early final origin show ?thesis by blast
qed

text \<open>
  C3. For the configuration of \<open>__init__\<close>, in \<open>extractive_summarization\<close> and in
  \<open>abstractive_summarization\<close>, for an attempt \<open>k\<close> that is made: an
  \<open>HttpResponseError\<close> whose status code is not 429 ends the call with that error, with
  the request of attempt \<open>k\<close> as the last event, so with no sleep and no further attempt.
  An exception of the \<open>try\<close> block that is not an \<open>HttpResponseError\<close> is followed,
  on the attempts 0 and 1, by a sleep of \<open>retry_delay * 2 ^ k\<close> seconds and by the
  request again, and on attempt 2, the last one, is raised with no sleep. A call that has
  made a request and ends with such an exception has made all three attempts.
\<close>

theorem other_failures:
  assumes cfg: "max_retries s = 3 \<and> retry_delay s = 1"
  shows
    "((k < requests (fst (extractive_summarization s client elapsed text sentence_count sort_by)) \<and>
       client k = SdkRaise (HttpResponseError c) \<and> c \<noteq> Some 429 \<longrightarrow>
         snd (snd (extractive_summarization s client elapsed text sentence_count sort_by)) =
           Inl (HttpResponseError c) \<and>
         requests (fst (extractive_summarization s client elapsed text sentence_count sort_by)) = Suc k \<and>
         last (fst (extractive_summarization s client elapsed text sentence_count sort_by)) =
           BeginAnalyzeActions [text] [ExtractiveSummaryAction sentence_count sort_by]) \<and>
      (k < requests (fst (extractive_summarization s client elapsed text sentence_count sort_by)) \<and>
       snd (snd (extractive_attempt client elapsed text
                   (ExtractiveSummaryAction sentence_count sort_by) s k)) = BodyRaise e \<and>
       \<not> is_http_response_error e \<longrightarrow>
         (k < 2 \<longrightarrow>
            (\<exists>pre post.
               fst (extractive_summarization s client elapsed text sentence_count sort_by) =
                 pre @ BeginAnalyzeActions [text] [ExtractiveSummaryAction sentence_count sort_by]
                     # Sleep (2 ^ k)
                     # BeginAnalyzeActions [text] [ExtractiveSummaryAction sentence_count sort_by]
                     # post \<and>
               requests pre = k)) \<and>
         (k = 2 \<longrightarrow>
            snd (snd (extractive_summarization s client elapsed text sentence_count sort_by)) = Inl e \<and>
            requests (fst (extractive_summarization s client elapsed text sentence_count sort_by)) = 3 \<and>
            last (fst (extractive_summarization s client elapsed text sentence_count sort_by)) =
              BeginAnalyzeActions [text] [ExtractiveSummaryAction sentence_count sort_by])) \<and>
      (fst (extractive_summarization s client elapsed text sentence_count sort_by) \<noteq> [] \<and>
       snd (snd (extractive_summarization s client elapsed text sentence_count sort_by)) = Inl e \<and>
       \<not> is_http_response_error e \<longrightarrow>
         requests (fst (extractive_summarization s client elapsed text sentence_count sort_by)) = 3)) \<and>
     ((k < requests (fst (abstractive_summarization s client' elapsed text summary_length)) \<and>
       client' k = SdkRaise (HttpResponseError c) \<and> c \<noteq> Some 429 \<longrightarrow>
         snd (snd (abstractive_summarization s client' elapsed text summary_length)) =
           Inl (HttpResponseError c) \<and>
         requests (fst (abstractive_summarization s client' elapsed text summary_length)) = Suc k \<and>
         last (fst (abstractive_summarization s client' elapsed text summary_length)) =
           BeginAnalyzeActions [text] [AbstractiveSummaryAction summary_length]) \<and>
      (k < requests (fst (abstractive_summarization s client' elapsed text summary_length)) \<and>
       snd (snd (abstractive_attempt client' elapsed text
                   (AbstractiveSummaryAction summary_length) s k)) = BodyRaise e \<and>
       \<not> is_http_response_error e \<longrightarrow>
         (k < 2 \<longrightarrow>
            (\<exists>pre post.
               fst (abstractive_summarization s client' elapsed text summary_length) =
                 pre @ BeginAnalyzeActions [text] [AbstractiveSummaryAction summary_length]
                     # Sleep (2 ^ k)
                     # BeginAnalyzeActions [text] [AbstractiveSummaryAction summary_length]
                     # post \<and>
               requests pre = k)) \<and>
         (k = 2 \<longrightarrow>
            snd (snd (abstractive_summarization s client' elapsed text summary_length)) = Inl e \<and>
            requests (fst (abstractive_summarization s client' elapsed text summary_length)) = 3 \<and>
            last (fst (abstractive_summarization s client' elapsed text summary_length)) =
              BeginAnalyzeActions [text] [AbstractiveSummaryAction summary_length])) \<and>
      (fst (abstractive_summarization s client' elapsed text summary_length) \<noteq> [] \<and>
       snd (snd (abstractive_summarization s client' elapsed text summary_length)) = Inl e \<and>
       \<not> is_http_response_error e \<longrightarrow>
         requests (fst (abstractive_summarization s client' elapsed text summary_length)) = 3))"
  by (rule conjI [OF extractive_other_failures [OF cfg] abstractive_other_failures [OF cfg]])

lemma sample_configuration:
  "max_retries sample_summarizer = 3" "retry_delay sample_summarizer = 1"
  "rate_limit_delay sample_summarizer = 2"
  by (simp_all add: sample_summarizer_def)

lemma strip_ab: "strip ''ab'' = ''ab''"
  by (simp add: strip_def isspace_def)

lemma sample_extractive_500:
  "extractive_summarization sample_summarizer (always_raises (HttpResponseError (Some 500))) 0 ''ab'' 3 ''Rank'' =
     ([BeginAnalyzeActions [''ab''] [ExtractiveSummaryAction 3 ''Rank'']],
      update_stats sample_summarizer (length ''ab'') 0 False, Inl (HttpResponseError (Some 500)))"
  by (simp add: extractive_summarization_def finish_def upt_three extractive_attempt_def
      always_raises_def sample_configuration strip_ab)

lemma sample_extractive_timeout:
  "extractive_summarization sample_summarizer (always_raises (OtherException ''timeout'')) 0 ''ab'' 3 ''Rank'' =
     ([BeginAnalyzeActions [''ab''] [ExtractiveSummaryAction 3 ''Rank''], Sleep 1,
       BeginAnalyzeActions [''ab''] [ExtractiveSummaryAction 3 ''Rank''], Sleep 2,
       BeginAnalyzeActions [''ab''] [ExtractiveSummaryAction 3 ''Rank'']],
      update_stats sample_summarizer (length ''ab'') 0 False, Inl (OtherException ''timeout''))"
  by (simp add: extractive_summarization_def finish_def upt_three extractive_attempt_def
      always_raises_def sample_configuration strip_ab)

lemma sample_abstractive_500:
  "abstractive_summarization sample_summarizer (always_raises (HttpResponseError (Some 500))) 0 ''ab'' ''medium'' =
     ([BeginAnalyzeActions [''ab''] [AbstractiveSummaryAction ''medium'']],
      update_stats sample_summarizer (length ''ab'') 0 False, Inl (HttpResponseError (Some 500)))"
  by (simp add: abstractive_summarization_def finish_def upt_three abstractive_attempt_def
      always_raises_def sample_configuration strip_ab)

lemma sample_abstractive_timeout:
  "abstractive_summarization sample_summarizer (always_raises (OtherException ''timeout'')) 0 ''ab'' ''medium'' =
     ([BeginAnalyzeActions [''ab''] [AbstractiveSummaryAction ''medium''], Sleep 1,
       BeginAnalyzeActions [''ab''] [AbstractiveSummaryAction ''medium''], Sleep 2,
       BeginAnalyzeActions [''ab''] [AbstractiveSummaryAction ''medium'']],
      update_stats sample_summarizer (length ''ab'') 0 False, Inl (OtherException ''timeout''))"
  by (simp add: abstractive_summarization_def finish_def upt_three abstractive_attempt_def
      always_raises_def sample_configuration strip_ab)

theorem other_failures_witness:
  "max_retries sample_summarizer = 3 \<and> retry_delay sample_summarizer = 1 \<and>
   (0::nat) < requests (fst (extractive_summarization sample_summarizer
        (always_raises (HttpResponseError (Some 500))) 0 ''ab'' 3 ''Rank'')) \<and>
   snd (snd (extractive_summarization sample_summarizer
        (always_raises (HttpResponseError (Some 500))) 0 ''ab'' 3 ''Rank'')) =
     Inl (HttpResponseError (Some 500)) \<and>
   requests (fst (extractive_summarization sample_summarizer
        (always_raises (HttpResponseError (Some 500))) 0 ''ab'' 3 ''Rank'')) = 1 \<and>
   requests (fst (abstractive_summarization sample_summarizer
        (always_raises (HttpResponseError (Some 500))) 0 ''ab'' ''medium'')) = 1 \<and>
   \<not> is_http_response_error (OtherException ''timeout'') \<and>
   fst (extractive_summarization sample_summarizer
        (always_raises (OtherException ''timeout'')) 0 ''ab'' 3 ''Rank'') =
     [BeginAnalyzeActions [''ab''] [ExtractiveSummaryAction 3 ''Rank''], Sleep 1,
      BeginAnalyzeActions [''ab''] [ExtractiveSummaryAction 3 ''Rank''], Sleep 2,
      BeginAnalyzeActions [''ab''] [ExtractiveSummaryAction 3 ''Rank'']] \<and>
   snd (snd (extractive_summarization sample_summarizer
        (always_raises (OtherException ''timeout'')) 0 ''ab'' 3 ''Rank'')) =
     Inl (OtherException ''timeout'') \<and>
   snd (snd (abstractive_summarization sample_summarizer
        (always_raises (OtherException ''timeout'')) 0 ''ab'' ''medium'')) =
     Inl (OtherException ''timeout'') \<and>
   requests (fst (abstractive_summarization sample_summarizer
        (always_raises (OtherException ''timeout'')) 0 ''ab'' ''medium'')) = 3"
proof -
  let ?s = sample_summarizer
  let ?c500 = "always_raises (HttpResponseError (Some 500)) :: nat \<Rightarrow> extract_doc_result sdk_outcome"
  let ?a500 = "always_raises (HttpResponseError (Some 500)) :: nat \<Rightarrow> abstract_doc_result sdk_outcome"
  let ?ct = "always_raises (OtherException ''timeout'') :: nat \<Rightarrow> extract_doc_result sdk_outcome"
  let ?at = "always_raises (OtherException ''timeout'') :: nat \<Rightarrow> abstract_doc_result sdk_outcome"
  have cfg: "max_retries ?s = 3 \<and> retry_delay ?s = 1"
    by (simp add: sample_configuration)
  have other: "\<not> is_http_response_error (OtherException ''timeout'')" by simp
  have req500: "(0::nat) < requests (fst (extractive_summarization ?s ?c500 0 ''ab'' 3 ''Rank''))"
    by (simp add: sample_extractive_500)
  have areq500: "(0::nat) < requests (fst (abstractive_summarization ?s ?a500 0 ''ab'' ''medium''))"
    by (simp add: sample_abstractive_500)
  have reqt: "(2::nat) < requests (fst (extractive_summarization ?s ?ct 0 ''ab'' 3 ''Rank''))"
    by (simp add: sample_extractive_timeout)
  have areqt: "fst (abstractive_summarization ?s ?at 0 ''ab'' ''medium'') \<noteq> []"
    by (simp add: sample_abstractive_timeout)
  have aout: "snd (snd (abstractive_summarization ?s ?at 0 ''ab'' ''medium'')) = Inl (OtherException ''timeout'')"
    by (simp add: sample_abstractive_timeout)
  have raises: "snd (snd (extractive_attempt ?ct 0 ''ab'' (ExtractiveSummaryAction 3 ''Rank'') ?s 2)) =
      BodyRaise (OtherException ''timeout'')"
    by (simp add: extractive_attempt_def always_raises_def)
  have c500: "?c500 0 = SdkRaise (HttpResponseError (Some 500))" "?a500 0 = SdkRaise (HttpResponseError (Some 500))"
    by (simp_all add: always_raises_def)
  have ne: "Some (500::int) \<noteq> Some 429" by simp
  note e1 = other_failures [OF cfg, of 0 ?c500 0 "''ab''" 3 "''Rank''" "Some 500" "OtherException ''timeout''"
      ?a500 "''medium''", THEN conjunct1, THEN conjunct1, rule_format, OF conjI [OF req500 conjI [OF c500(1) ne]]]
  note a1 = other_failures [OF cfg, of 0 ?c500 0 "''ab''" 3 "''Rank''" "Some 500" "OtherException ''timeout''"
      ?a500 "''medium''", THEN conjunct2, THEN conjunct1, rule_format, OF conjI [OF areq500 conjI [OF c500(2) ne]]]
  note e2 = other_failures [OF cfg, of 2 ?ct 0 "''ab''" 3 "''Rank''" "Some 500" "OtherException ''timeout''"
      ?at "''medium''", THEN conjunct1, THEN conjunct2, THEN conjunct1, rule_format,
      OF conjI [OF reqt conjI [OF raises other]]]
  note a3 = other_failures [OF cfg, of 2 ?ct 0 "''ab''" 3 "''Rank''" "Some 500" "OtherException ''timeout''"
      ?at "''medium''", THEN conjunct2, THEN conjunct2, THEN conjunct2, rule_format,
      OF conjI [OF areqt conjI [OF aout other]]]
  have t: "fst (extractive_summarization ?s ?ct 0 ''ab'' 3 ''Rank'') =
     [BeginAnalyzeActions [''ab''] [ExtractiveSummaryAction 3 ''Rank''], Sleep 1,
      BeginAnalyzeActions [''ab''] [ExtractiveSummaryAction 3 ''Rank''], Sleep 2,
      BeginAnalyzeActions [''ab''] [ExtractiveSummaryAction 3 ''Rank'']]"
    by (simp add: sample_extractive_timeout)
  from e1 have e1': "snd (snd (extractive_summarization ?s ?c500 0 ''ab'' 3 ''Rank'')) = Inl (HttpResponseError (Some 500))"
    "requests (fst (extractive_summarization ?s ?c500 0 ''ab'' 3 ''Rank'')) = 1"
    by simp_all
  from a1 have a1': "requests (fst (abstractive_summarization ?s ?a500 0 ''ab'' ''medium'')) = 1"
    by simp
  from e2 have e2': "snd (snd (extractive_summarization ?s ?ct 0 ''ab'' 3 ''Rank'')) = Inl (OtherException ''timeout'')"
    by simp
  show ?thesis
    by (intro conjI cfg [THEN conjunct1] cfg [THEN conjunct2] req500 e1' a1' other t e2' aout a3)
qed

section \<open>The polling loop of conversation summarization\<close>

text \<open>
  A polling loop that ends has met an answer that ends it, so one whose answers never end
  it does not end; a loop that ends has made no request; and a loop that meets an answer
  that ends it does end.
\<close>

lemma poll_Some_ends:
  "poll get loc key i = Some y \<Longrightarrow> \<exists>j\<ge>i. ends_poll (get j)"
proof (induction rule: poll.raw_induct [rotated 1, consumes 1])
  case (1 poll get loc key i y)
  show ?case
  proof (cases "ends_poll (get i)")
    case True
    then show ?thesis by blast
  next
    case False
    then obtain code d where g: "get i = GetResponse code d" by (cases "get i") simp_all
    from False g have ne: "\<not> raise_for_status code" "job_status d \<noteq> ''succeeded''" "job_status d \<noteq> ''failed''"
      by simp_all
    from 1(2) have "Option.bind (poll get loc key (i + 1))
        (\<lambda>p. Some (HttpGet loc key # Sleep 2 # fst p, snd p)) = Some y"
      by (simp add: g ne)
    then obtain y' where "poll get loc key (i + 1) = Some y'"
      by (cases "poll get loc key (i + 1)") simp_all
    from 1(1) [OF this] obtain j where "j \<ge> i + 1" "ends_poll (get j)" by blast
    then have "j \<ge> i \<and> ends_poll (get j)" by simp
    then show ?thesis by blast
  qed
qed

lemma poll_never_ends:
  assumes "\<forall>j. \<not> ends_poll (get j)"
  shows "poll get loc key i = None"
proof (cases "poll get loc key i")
  case None
  then show ?thesis .
next
  case (Some y)
  from poll_Some_ends [OF this] assms show ?thesis by blast
qed

lemma poll_no_requests:
  "poll get loc key i = Some y \<Longrightarrow> requests (fst y) = 0"
proof (induction rule: poll.raw_induct [rotated 1, consumes 1])
  case (1 poll get loc key i y)
  show ?case
  proof (cases "ends_poll (get i)")
    case True
    with 1(2) show ?thesis by (cases "get i") (auto split: if_splits)
  next
    case False
    then obtain code d where g: "get i = GetResponse code d" by (cases "get i") simp_all
    from False g have ne: "\<not> raise_for_status code" "job_status d \<noteq> ''succeeded''" "job_status d \<noteq> ''failed''"
      by simp_all
    from 1(2) have b: "Option.bind (poll get loc key (i + 1))
        (\<lambda>p. Some (HttpGet loc key # Sleep 2 # fst p, snd p)) = Some y"
      by (simp add: g ne)
    then obtain y' where y': "poll get loc key (i + 1) = Some y'"
      by (cases "poll get loc key (i + 1)") simp_all
    with b have "y = (HttpGet loc key # Sleep 2 # fst y', snd y')" by simp
    with 1(1) [OF y'] show ?thesis by simp
  qed
qed

lemma poll_ends:
  "ends_poll (get j) \<Longrightarrow> i \<le> j \<Longrightarrow> \<exists>y. poll get loc key i = Some y"
proof (induction "j - i" arbitrary: i)
  case 0
  then have e: "ends_poll (get i)" by simp
  show ?case
  proof (cases "get i")
    case (GetRaise x)
    then show ?thesis by (subst poll.simps) simp
  next
    case (GetResponse code d)
    with e show ?thesis by (subst poll.simps) auto
  qed
next
  case (Suc n)
  then have "n = j - (i + 1)" "i + 1 \<le> j" by simp_all
  from Suc(1) [OF this(1) Suc(3) this(2)] obtain y where "poll get loc key (i + 1) = Some y"
    by blast
  then have y: "poll get loc key (Suc i) = Some y" by simp
  show ?case
  proof (cases "get i")
    case (GetRaise x)
    then show ?thesis by (subst poll.simps) simp
  next
    case (GetResponse code d)
    then show ?thesis by (subst poll.simps) (simp add: y)
  qed
qed

section \<open>The retry loop of conversation summarization\<close>

text \<open>
  A run of the loop that ends is the run of the loop over the same \<open>try\<close> blocks read
  as blocks that always end; and the loop ends when every block does.
\<close>

lemma retry_loop_opt_total:
  "retry_loop_opt h body s as = Some res \<Longrightarrow> res = retry_loop h (total_body body rq) s as"
proof (induction as arbitrary: s res)
  case Nil
  then show ?case by simp
next
  case (Cons a rest)
  from Cons.prems obtain ev s' b where b: "body s a = Some (ev, s', b)"
    by (cases "body s a") auto
  then have t: "total_body body rq s a = (ev, s', b)" by (simp add: total_body_def)
  show ?case
  proof (cases b)
    case (BodyReturn r)
    with Cons.prems b t show ?thesis by simp
  next
    case BodyBreak
    with Cons.prems b t show ?thesis by simp
  next
    case (BodyRaise e)
    show ?thesis
    proof (cases "h s' a e")
      case Reraise
      with Cons.prems b t BodyRaise show ?thesis by simp
    next
      case (SleepAndContinue d)
      with Cons.prems b BodyRaise obtain res' where
        r: "retry_loop_opt h body s' rest = Some res'" 
        by (cases "retry_loop_opt h body s' rest") auto
      from Cons.IH [OF this] have eq: "retry_loop h (total_body body rq) s' rest = res'" by simp
      obtain tr s2 out where res': "res' = (tr, s2, out)" by (cases res') auto
      from Cons.prems b BodyRaise SleepAndContinue r res'
      have "res = (ev @ Sleep d # tr, s2, out)" by simp
      moreover from t BodyRaise SleepAndContinue eq res'
      have "retry_loop h (total_body body rq) s (a # rest) = (ev @ Sleep d # tr, s2, out)" by simp
      ultimately show ?thesis by simp
    qed
  qed
qed

lemma retry_loop_opt_ends:
  "\<forall>s. \<forall>k\<in>set as. body s k \<noteq> None \<Longrightarrow> \<exists>res. retry_loop_opt h body s as = Some res"
proof (induction as arbitrary: s)
  case Nil
  then show ?case by simp
next
  case (Cons a rest)
  from Cons.prems have "body s a \<noteq> None" by simp
  then obtain ev s' b where b: "body s a = Some (ev, s', b)"
    by (cases "body s a") auto
  from Cons.prems have "\<forall>s. \<forall>k\<in>set rest. body s k \<noteq> None" by simp
  from Cons.IH [OF this] obtain res where "retry_loop_opt h body s' rest = Some res" by blast
  with b show ?case
    by (cases res) (auto split: body_outcome.splits handler_action.splits)
qed

text \<open>
  The \<open>try\<close> block of an attempt starts with the \<open>post\<close> and makes no other request,
  leaves the summarizer as it is when it raises, and ends when the polling meets an answer
  that ends it.
\<close>

lemma conversation_attempt_cases:
  assumes a: "conversation_attempt post get elapsed items url key body s k = Some (ev, s', b)"
  shows "(\<exists>g. ev = HttpPost url key body # g \<and> requests g = 0) \<and> (\<forall>e. b = BodyRaise e \<longrightarrow> s' = s)"
proof (cases "post k")
  case (PostRaise e)
  with a show ?thesis by (auto simp: conversation_attempt_def Let_def)
next
  case (PostResponse code loc)
  show ?thesis
  proof (cases "raise_for_status code \<or> loc = None \<or> loc = Some []")
    case True
    with a PostResponse show ?thesis
      by (auto simp: conversation_attempt_def Let_def split: if_splits)
  next
    case False
    then have f: "\<not> raise_for_status code" "loc \<noteq> None" "loc \<noteq> Some []" by simp_all
    show ?thesis
    proof (cases "poll (get k) (the loc) key 0")
      case None
      with a PostResponse f show ?thesis by (auto simp: conversation_attempt_def Let_def)
    next
      case (Some y)
      obtain tr r where y: "y = (tr, r)" by (cases y) auto
      from poll_no_requests [OF Some] y have tr: "requests tr = 0" by simp
      show ?thesis
      proof (cases r)
        case (Inl e)
        with a PostResponse f Some y tr show ?thesis by (auto simp: conversation_attempt_def Let_def)
      next
        case (Inr d)
        show ?thesis
        proof (cases "total_chars items")
          case (Inl e)
          with a PostResponse f Some y tr Inr show ?thesis by (auto simp: conversation_attempt_def Let_def)
        next
          case (Inr n)
          with a PostResponse f Some y tr \<open>r = Inr d\<close> show ?thesis
            by (auto simp: conversation_attempt_def Let_def)
        qed
      qed
    qed
  qed
qed

lemma conversation_attempt_ends:
  assumes "ends_poll (get k j)"
  shows "conversation_attempt post get elapsed items url key body s k \<noteq> None"
proof (cases "post k")
  case (PostRaise e)
  then show ?thesis by (auto simp: conversation_attempt_def Let_def)
next
  case (PostResponse code loc)
  show ?thesis
  proof (cases "raise_for_status code \<or> loc = None \<or> loc = Some []")
    case True
    with PostResponse show ?thesis
      by (auto simp: conversation_attempt_def Let_def)
  next
    case False
    then have f: "\<not> raise_for_status code" "loc \<noteq> None" "loc \<noteq> Some []" by simp_all
    from assms have "\<exists>y. poll (get k) (the loc) key 0 = Some y" by (rule poll_ends) simp
    then obtain tr r where y: "poll (get k) (the loc) key 0 = Some (tr, r)" by auto
    show ?thesis
    proof (cases r)
      case (Inl e)
      with PostResponse f y show ?thesis by (auto simp: conversation_attempt_def Let_def)
    next
      case (Inr d)
      with PostResponse f y show ?thesis
        by (cases "total_chars items") (simp_all add: conversation_attempt_def Let_def)
    qed
  qed
qed

lemma total_conversation_attempt_events:
  "\<forall>s k. \<exists>g. fst (total_body (conversation_attempt post get elapsed items url key body)
                      (HttpPost url key body) s k) = HttpPost url key body # g \<and> requests g = 0"
proof (intro allI)
  fix s k
  show "\<exists>g. fst (total_body (conversation_attempt post get elapsed items url key body)
                      (HttpPost url key body) s k) = HttpPost url key body # g \<and> requests g = 0"
  proof (cases "conversation_attempt post get elapsed items url key body s k")
    case None
    then show ?thesis by (simp add: total_body_def)
  next
    case (Some x)
    obtain ev s' b where x: "x = (ev, s', b)" by (cases x) auto
    from conversation_attempt_cases [OF Some [unfolded x]] Some x show ?thesis
      by (simp add: total_body_def)
  qed
qed

lemma total_conversation_attempt_raise_state:
  "\<forall>s k s' e ev. total_body (conversation_attempt post get elapsed items url key body)
       (HttpPost url key body) s k = (ev, s', BodyRaise e) \<longrightarrow> s' = s"
proof (intro allI impI)
  fix s k s' e ev
  assume t: "total_body (conversation_attempt post get elapsed items url key body)
       (HttpPost url key body) s k = (ev, s', BodyRaise e)"
  show "s' = s"
  proof (cases "conversation_attempt post get elapsed items url key body s k")
    case None
    with t show ?thesis by (simp add: total_body_def)
  next
    case (Some x)
    with t have "conversation_attempt post get elapsed items url key body s k = Some (ev, s', BodyRaise e)"
      by (simp add: total_body_def)
    from conversation_attempt_cases [OF this] show ?thesis by simp
  qed
qed

text \<open>
  A run of \<open>conversation_summarization\<close> that ends with events is a run of the retry
  loop on the body built from the items.
\<close>

lemma conversation_events:
  assumes run: "conversation_summarization s post get elapsed items aspects = Some (tr, s_end, out)"
    and ne: "tr \<noteq> []"
  shows "\<exists>body. build_data items aspects = Inr body \<and>
           tr = fst (retry_loop rest_handler
                  (total_body (conversation_attempt post get elapsed items (job_url s) (api_key s) body)
                     (HttpPost (job_url s) (api_key s) body))
                  s [0 ..< max_retries s])"
proof -
  have fst_finish: "fst (finish_conversation items elapsed res) = fst res" for res :: "event list \<times> summarizer \<times> conversation_summary loop_outcome"
    by (cases res) (auto simp: finish_conversation_def split: loop_outcome.splits sum.splits)
  from run ne have items: "items \<noteq> []"
    by (auto simp: conversation_summarization_def finish_conversation_def split: sum.splits)
  from run ne items obtain body where body: "build_data items aspects = Inr body"
    by (cases "build_data items aspects")
      (auto simp: conversation_summarization_def finish_conversation_def split: sum.splits)
  from run items body obtain res where
    res: "retry_loop_opt rest_handler
            (conversation_attempt post get elapsed items (job_url s) (api_key s) body)
            s [0 ..< max_retries s] = Some res"
      "finish_conversation items elapsed res = (tr, s_end, out)"
    by (auto simp: conversation_summarization_def)
  from retry_loop_opt_total [OF res(1)] have
    "res = retry_loop rest_handler
        (total_body (conversation_attempt post get elapsed items (job_url s) (api_key s) body)
           (HttpPost (job_url s) (api_key s) body))
        s [0 ..< max_retries s]" .
  moreover from res(2) fst_finish [of res] have "tr = fst res" by simp
  ultimately show ?thesis using body by blast
qed

lemma conversation_retried:
  assumes run: "conversation_summarization s post get elapsed items aspects = Some (tr, s_end, out)"
    and made: "k < requests tr"
    and body: "build_data items aspects = Inr body"
    and b: "conversation_attempt post get elapsed items (job_url s) (api_key s) body s k =
              Some (ev, s', BodyRaise e)"
    and act: "rest_handler s k e = SleepAndContinue d"
  shows "\<exists>pre post'. tr = pre @ ev @ Sleep d # post' \<and> requests pre = k \<and>
           (Suc k < max_retries s \<longrightarrow>
              (\<exists>rest. post' = HttpPost (job_url s) (api_key s) body # rest))"
proof -
  let ?rq = "HttpPost (job_url s) (api_key s) body"
  let ?body = "total_body (conversation_attempt post get elapsed items (job_url s) (api_key s) body) ?rq"
  let ?loop = "retry_loop rest_handler ?body s [0 ..< max_retries s]"
  from made have "tr \<noteq> []" by auto
  from conversation_events [OF run this] body have tr: "tr = fst ?loop" by simp
  with made have reach: "k < requests (fst ?loop)" by simp
  have "requests (fst ?loop) \<le> length [0 ..< max_retries s]"
    using total_conversation_attempt_events by (rule retry_loop_requests_le)
  with reach have k: "k < max_retries s" by simp
  then have nth: "[0 ..< max_retries s] ! k = k" by simp
  have tb: "?body s ([0 ..< max_retries s] ! k) = (ev, s', BodyRaise e)"
    using b nth by (simp add: total_body_def)
  have rq: "is_request ?rq" by simp
  from retry_loop_retried [OF total_conversation_attempt_events rq
      total_conversation_attempt_raise_state reach tb] act nth
  show ?thesis unfolding tr by simp
qed

lemma conversation_requests_le:
  assumes run: "conversation_summarization s post get elapsed items aspects = Some (tr, s_end, out)"
  shows "requests tr \<le> max_retries s"
proof (cases "tr = []")
  case True
  then show ?thesis by simp
next
  case False
  from conversation_events [OF run False] obtain body where
    tr: "tr = fst (retry_loop rest_handler
                  (total_body (conversation_attempt post get elapsed items (job_url s) (api_key s) body)
                     (HttpPost (job_url s) (api_key s) body))
                  s [0 ..< max_retries s])" by blast
  have "requests (fst (retry_loop rest_handler
                  (total_body (conversation_attempt post get elapsed items (job_url s) (api_key s) body)
                     (HttpPost (job_url s) (api_key s) body))
                  s [0 ..< max_retries s])) \<le> length [0 ..< max_retries s]"
    using total_conversation_attempt_events by (rule retry_loop_requests_le)
  with tr show ?thesis by simp
qed

lemma conversation_ends:
  assumes "\<forall>k<max_retries s. \<exists>j. ends_poll (get k j)"
  shows "conversation_summarization s post get elapsed items aspects \<noteq> None"
proof (cases "items = []")
  case True
  then show ?thesis by (simp add: conversation_summarization_def)
next
  case False
  show ?thesis
  proof (cases "build_data items aspects")
    case (Inl e)
    with False show ?thesis by (simp add: conversation_summarization_def)
  next
    case (Inr body)
    have "\<forall>s'. \<forall>k\<in>set [0 ..< max_retries s].
        conversation_attempt post get elapsed items (job_url s) (api_key s) body s' k \<noteq> None"
    proof (intro allI ballI)
      fix s' k
      assume "k \<in> set [0 ..< max_retries s]"
      with assms obtain j where "ends_poll (get k j)" by auto
      then show "conversation_attempt post get elapsed items (job_url s) (api_key s) body s' k \<noteq> None"
        by (rule conversation_attempt_ends)
    qed
    from retry_loop_opt_ends [OF this] obtain res where
      "retry_loop_opt rest_handler
         (conversation_attempt post get elapsed items (job_url s) (api_key s) body)
         s [0 ..< max_retries s] = Some res" by blast
    with False Inr show ?thesis by (simp add: conversation_summarization_def)
  qed
qed

section \<open>Sample runs of conversation summarization\<close>

lemma str_nat_one: "str_nat (Suc 0) = ''1''"
  by code_simp

lemma sample_build_data: "build_data sample_items None = Inr sample_body"
  by (simp add: build_data_def sample_items_def sample_body_def str_nat_one del: str_nat.simps)

lemma job_url_sample: "job_url sample_summarizer = ''https://example.test/language/analyze-conversations/jobs?api-version=2023-04-01''"
  by (simp add: job_url_def sample_summarizer_def)

lemma sample_conversation_429:
  "conversation_summarization sample_summarizer post_429 always_running 0 sample_items None =
     Some ([HttpPost (job_url sample_summarizer) ''key'' sample_body, Sleep 2,
            HttpPost (job_url sample_summarizer) ''key'' sample_body, Sleep 4,
            HttpPost (job_url sample_summarizer) ''key'' sample_body, Sleep 8],
           sample_summarizer, Inr None)"
proof -
  have items: "sample_items \<noteq> []" by (simp add: sample_items_def)
  have key: "api_key sample_summarizer = ''key''" by (simp add: sample_summarizer_def)
  have at: "conversation_attempt post_429 always_running 0 sample_items (job_url sample_summarizer) ''key''
      sample_body sample_summarizer k =
      Some ([HttpPost (job_url sample_summarizer) ''key'' sample_body], sample_summarizer,
            BodyRaise (HTTPError 429))" for k
    by (simp add: conversation_attempt_def post_429_def raise_for_status_def)
  show ?thesis
    by (simp add: conversation_summarization_def items sample_build_data key at upt_three
        sample_configuration finish_conversation_def)
qed

section \<open>Conversation summarization while it runs\<close>

text \<open>The polling loop, cut or not, makes no request.\<close>

lemma poll_steps_no_requests: "requests (fst (poll_steps fuel get loc key i)) = 0"
proof (induction fuel arbitrary: i)
  case 0
  show ?case by simp
next
  case (Suc fuel)
  show ?case
  proof (cases "get i")
    case (GetRaise e)
    then show ?thesis by simp
  next
    case (GetResponse code d)
    obtain tr r where p: "poll_steps fuel get loc key (i + 1) = (tr, r)"
      by (cases "poll_steps fuel get loc key (i + 1)") auto
    from Suc [of "i + 1"] p have "requests tr = 0" by simp
    with GetResponse p show ?thesis by simp
  qed
qed

text \<open>A polling loop that has its result within the fuel is the polling loop of the call.\<close>

lemma poll_steps_poll:
  "poll_steps fuel get loc key i = (tr, Some r) \<Longrightarrow> poll get loc key i = Some (tr, r)"
proof (induction fuel arbitrary: i tr)
  case 0
  then show ?case by simp
next
  case (Suc fuel)
  show ?case
  proof (cases "get i")
    case (GetRaise e)
    with Suc.prems show ?thesis by (subst poll.simps) auto
  next
    case (GetResponse code d)
    show ?thesis
    proof (cases "ends_poll (get i)")
      case True
      with GetResponse Suc.prems show ?thesis
        by (subst poll.simps) (auto split: if_splits)
    next
      case False
      with GetResponse have ne: "\<not> raise_for_status code" "job_status d \<noteq> ''succeeded''"
        "job_status d \<noteq> ''failed''" by simp_all
      obtain tr' r' where p: "poll_steps fuel get loc key (i + 1) = (tr', r')"
        by (cases "poll_steps fuel get loc key (i + 1)") auto
      with GetResponse ne Suc.prems have tr: "tr = HttpGet loc key # Sleep 2 # tr'" and r': "r' = Some r"
        by simp_all
      from Suc.IH [of "i + 1" tr'] p r' have "poll get loc key (i + 1) = Some (tr', r)" by simp
      then have "poll get loc key (Suc i) = Some (tr', r)" by simp
      with GetResponse ne tr show ?thesis by (subst poll.simps) simp
    qed
  qed
qed

text \<open>
  The \<open>try\<close> block of an attempt, cut or not, starts with the \<open>post\<close> and makes no other
  request, and leaves the summarizer as it is when it raises.
\<close>

lemma conversation_attempt_steps_cases:
  assumes a: "conversation_attempt_steps fuel post get elapsed items url key body s k = (ev, s', b)"
  shows "(\<exists>g. ev = HttpPost url key body # g \<and> requests g = 0) \<and>
         (\<forall>e. b = Some (BodyRaise e) \<longrightarrow> s' = s) \<and> (b = None \<longrightarrow> s' = s)"
proof (cases "post k")
  case (PostRaise e)
  with a show ?thesis by (auto simp: conversation_attempt_steps_def Let_def)
next
  case (PostResponse code loc)
  show ?thesis
  proof (cases "raise_for_status code \<or> loc = None \<or> loc = Some []")
    case True
    with a PostResponse show ?thesis
      by (auto simp: conversation_attempt_steps_def Let_def split: if_splits)
  next
    case False
    then have f: "\<not> raise_for_status code" "loc \<noteq> None" "loc \<noteq> Some []" by simp_all
    obtain tr r where p: "poll_steps fuel (get k) (the loc) key 0 = (tr, r)"
      by (cases "poll_steps fuel (get k) (the loc) key 0") auto
    from poll_steps_no_requests [of fuel "get k" "the loc" key 0] p have tr: "requests tr = 0" by simp
    show ?thesis
    proof (cases r)
      case None
      with a PostResponse f p tr show ?thesis
        by (auto simp: conversation_attempt_steps_def Let_def)
    next
      case (Some y)
      show ?thesis
      proof (cases y)
        case (Inl e)
        with a PostResponse f p tr Some show ?thesis
          by (auto simp: conversation_attempt_steps_def Let_def)
      next
        case (Inr d)
        with a PostResponse f p tr Some show ?thesis
          by (cases "total_chars items") (auto simp: conversation_attempt_steps_def Let_def)
      qed
    qed
  qed
qed

lemma settled_attempt_events:
  "\<forall>s k. \<exists>g. fst (settled_body (conversation_attempt_steps fuel post get elapsed items url key body) s k) =
            HttpPost url key body # g \<and> requests g = 0"
proof (intro allI)
  fix s k
  obtain ev s' b where a: "conversation_attempt_steps fuel post get elapsed items url key body s k = (ev, s', b)"
    by (cases "conversation_attempt_steps fuel post get elapsed items url key body s k") auto
  from conversation_attempt_steps_cases [OF a] a
  show "\<exists>g. fst (settled_body (conversation_attempt_steps fuel post get elapsed items url key body) s k) =
            HttpPost url key body # g \<and> requests g = 0"
    by (cases b) (auto simp: settled_body_def)
qed

lemma settled_attempt_raise_state:
  "\<forall>s k s' e ev. settled_body (conversation_attempt_steps fuel post get elapsed items url key body) s k =
       (ev, s', BodyRaise e) \<longrightarrow> s' = s"
proof (intro allI impI)
  fix s k s' e ev
  assume t: "settled_body (conversation_attempt_steps fuel post get elapsed items url key body) s k =
       (ev, s', BodyRaise e)"
  obtain ev0 s0 b where a: "conversation_attempt_steps fuel post get elapsed items url key body s k = (ev0, s0, b)"
    by (cases "conversation_attempt_steps fuel post get elapsed items url key body s k") auto
  from t a have "b = Some (BodyRaise e)" "s0 = s'"
    by (cases b; simp add: settled_body_def)+
  with conversation_attempt_steps_cases [OF a] show "s' = s" by simp
qed

text \<open>The events of the loop over blocks that may be cut are those of the loop over the settled blocks.\<close>

lemma retry_loop_steps_events:
  "fst (retry_loop_steps h body s as) = fst (retry_loop h (settled_body body) s as)"
proof (induction as arbitrary: s)
  case Nil
  show ?case by simp
next
  case (Cons a rest)
  obtain ev s' b where b: "body s a = (ev, s', b)" by (cases "body s a") auto
  show ?case
  proof (cases b)
    case None
    with b show ?thesis by (simp add: settled_body_def)
  next
    case (Some out)
    with b have t: "settled_body body s a = (ev, s', out)" by (simp add: settled_body_def)
    show ?thesis
    proof (cases out)
      case (BodyReturn r)
      with b Some t show ?thesis by simp
    next
      case BodyBreak
      with b Some t show ?thesis by simp
    next
      case (BodyRaise e)
      from Cons.IH [of s'] b Some t BodyRaise show ?thesis
        by (cases "h s' a e") (auto split: prod.splits)
    qed
  qed
qed

text \<open>
  The events of \<open>conversation_summarization\<close>, seen after any number of steps of the
  polling, are those of the retry loop on the body built from the items.
\<close>

lemma conversation_steps_events:
  assumes items: "items \<noteq> []"
    and body: "build_data items aspects = Inr body"
  shows "fst (conversation_summarization_steps fuel s post get elapsed items aspects) =
         fst (retry_loop rest_handler
                (settled_body (conversation_attempt_steps fuel post get elapsed items
                                 (job_url s) (api_key s) body))
                s [0 ..< max_retries s])"
proof -
  let ?steps = "retry_loop_steps rest_handler
      (conversation_attempt_steps fuel post get elapsed items (job_url s) (api_key s) body)
      s [0 ..< max_retries s]"
  have fst_finish: "fst (finish_conversation items elapsed res) = fst res"
    for res :: "event list \<times> summarizer \<times> conversation_summary loop_outcome"
    by (cases res) (auto simp: finish_conversation_def split: loop_outcome.splits sum.splits)
  obtain tr s' r where st: "?steps = (tr, s', r)" by (cases ?steps) auto
  have "fst (conversation_summarization_steps fuel s post get elapsed items aspects) = tr"
  proof (cases r)
    case None
    with st items body show ?thesis by (simp add: conversation_summarization_steps_def)
  next
    case (Some out)
    obtain tr' s'' r' where f: "finish_conversation items elapsed (tr, s', out) = (tr', s'', r')"
      by (cases "finish_conversation items elapsed (tr, s', out)") auto
    from fst_finish [of "(tr, s', out)"] f have "tr' = tr" by simp
    with st items body Some f show ?thesis by (simp add: conversation_summarization_steps_def)
  qed
  moreover from st have "tr = fst ?steps" by simp
  ultimately show ?thesis by (simp add: retry_loop_steps_events)
qed

lemma conversation_steps_no_events:
  assumes "items = [] \<or> (\<exists>e. build_data items aspects = Inl e)"
  shows "fst (conversation_summarization_steps fuel s post get elapsed items aspects) = []"
  using assms
  by (auto simp: conversation_summarization_steps_def finish_conversation_def split: sum.splits)

lemma conversation_steps_requests_le:
  "requests (fst (conversation_summarization_steps fuel s post get elapsed items aspects)) \<le> max_retries s"
proof (cases "items = [] \<or> (\<exists>e. build_data items aspects = Inl e)")
  case True
  then show ?thesis by (simp add: conversation_steps_no_events)
next
  case False
  then obtain body where items: "items \<noteq> []" and body: "build_data items aspects = Inr body"
    by (cases "build_data items aspects") auto
  have "requests (fst (retry_loop rest_handler
                (settled_body (conversation_attempt_steps fuel post get elapsed items
                                 (job_url s) (api_key s) body))
                s [0 ..< max_retries s])) \<le> length [0 ..< max_retries s]"
    using settled_attempt_events by (rule retry_loop_requests_le)
  with conversation_steps_events [OF items body] show ?thesis by simp
qed

lemma conversation_steps_retried:
  assumes made: "k < requests (fst (conversation_summarization_steps fuel s post get elapsed items aspects))"
    and body: "build_data items aspects = Inr body"
    and b: "conversation_attempt_steps fuel post get elapsed items (job_url s) (api_key s) body s k =
              (ev, s', Some (BodyRaise e))"
    and act: "rest_handler s k e = SleepAndContinue d"
  shows "\<exists>pre post'. fst (conversation_summarization_steps fuel s post get elapsed items aspects) =
             pre @ ev @ Sleep d # post' \<and> requests pre = k \<and>
           (Suc k < max_retries s \<longrightarrow>
              (\<exists>rest. post' = HttpPost (job_url s) (api_key s) body # rest))"
proof -
  let ?rq = "HttpPost (job_url s) (api_key s) body"
  let ?body = "settled_body (conversation_attempt_steps fuel post get elapsed items (job_url s) (api_key s) body)"
  let ?loop = "retry_loop rest_handler ?body s [0 ..< max_retries s]"
  from made have items: "items \<noteq> []"
    by (cases "items = []") (simp_all add: conversation_steps_no_events)
  from conversation_steps_events [OF items body]
  have tr: "fst (conversation_summarization_steps fuel s post get elapsed items aspects) = fst ?loop" .
  with made have reach: "k < requests (fst ?loop)" by simp
  have "requests (fst ?loop) \<le> length [0 ..< max_retries s]"
    using settled_attempt_events by (rule retry_loop_requests_le)
  with reach have k: "k < max_retries s" by simp
  then have nth: "[0 ..< max_retries s] ! k = k" by simp
  have tb: "?body s ([0 ..< max_retries s] ! k) = (ev, s', BodyRaise e)"
    using b nth by (simp add: settled_body_def)
  have rq: "is_request ?rq" by simp
  from retry_loop_retried [OF settled_attempt_events rq settled_attempt_raise_state reach tb] act nth
  show ?thesis unfolding tr by simp
qed

text \<open>
  When the service answers 429 to the \<open>post\<close> of every attempt up to number \<open>k\<close>, attempt
  \<open>k\<close> is made, whatever the answers to the later attempts and to the polling are.
\<close>

lemma conversation_attempt_steps_429:
  assumes "post k = PostResponse 429 loc"
  shows "conversation_attempt_steps fuel post get elapsed items url key body s k =
           ([HttpPost url key body], s, Some (BodyRaise (HTTPError 429)))"
  using assms by (simp add: conversation_attempt_steps_def raise_for_status_def)

lemma conversation_steps_rate_limited_made:
  assumes items: "items \<noteq> []"
    and body: "build_data items aspects = Inr body"
  shows "k < max_retries s \<Longrightarrow> \<forall>j<k. \<exists>loc. post j = PostResponse 429 loc \<Longrightarrow>
         k < requests (fst (conversation_summarization_steps fuel s post get elapsed items aspects))"
proof (induction k)
  case 0
  let ?body = "settled_body (conversation_attempt_steps fuel post get elapsed items (job_url s) (api_key s) body)"
  from 0 have "[0 ..< max_retries s] \<noteq> []" by simp
  with settled_attempt_events [of fuel post get elapsed items "job_url s" "api_key s" body]
  have "\<exists>t. fst (retry_loop rest_handler ?body s [0 ..< max_retries s]) =
          HttpPost (job_url s) (api_key s) body # t"
    by (rule retry_loop_head)
  with conversation_steps_events [OF items body, of fuel s post get elapsed] show ?case by auto
next
  case (Suc k)
  from Suc.prems have k: "k < max_retries s" and before: "\<forall>j<k. \<exists>loc. post j = PostResponse 429 loc"
    by simp_all
  from Suc.IH [OF k before]
  have made: "k < requests (fst (conversation_summarization_steps fuel s post get elapsed items aspects))" .
  from Suc.prems obtain loc where "post k = PostResponse 429 loc" by blast
  then have b: "conversation_attempt_steps fuel post get elapsed items (job_url s) (api_key s) body s k =
           ([HttpPost (job_url s) (api_key s) body], s, Some (BodyRaise (HTTPError 429)))"
    by (rule conversation_attempt_steps_429)
  have act: "rest_handler s k (HTTPError 429) = SleepAndContinue (rate_limit_delay s * 2 ^ k)" by simp
  from conversation_steps_retried [OF made body b act] Suc.prems(1)
  obtain pre rest where
    "fst (conversation_summarization_steps fuel s post get elapsed items aspects) =
       pre @ [HttpPost (job_url s) (api_key s) body] @ Sleep (rate_limit_delay s * 2 ^ k) #
         HttpPost (job_url s) (api_key s) body # rest"
    "requests pre = k"
    by auto
  then show ?case by simp
qed

lemma conversation_steps_rate_limited:
  assumes k: "k < max_retries s"
    and items: "items \<noteq> []"
    and body: "build_data items aspects = Inr body"
    and limited: "\<forall>j\<le>k. \<exists>loc. post j = PostResponse 429 loc"
  shows "\<exists>pre post'. fst (conversation_summarization_steps fuel s post get elapsed items aspects) =
             pre @ HttpPost (job_url s) (api_key s) body # Sleep (rate_limit_delay s * 2 ^ k) # post' \<and>
           requests pre = k \<and>
           (Suc k < max_retries s \<longrightarrow>
              (\<exists>rest. post' = HttpPost (job_url s) (api_key s) body # rest))"
proof -
  from limited have before: "\<forall>j<k. \<exists>loc. post j = PostResponse 429 loc" by auto
  from conversation_steps_rate_limited_made [OF items body k before]
  have made: "k < requests (fst (conversation_summarization_steps fuel s post get elapsed items aspects))" .
  from limited obtain loc where "post k = PostResponse 429 loc" by blast
  then have b: "conversation_attempt_steps fuel post get elapsed items (job_url s) (api_key s) body s k =
           ([HttpPost (job_url s) (api_key s) body], s, Some (BodyRaise (HTTPError 429)))"
    by (rule conversation_attempt_steps_429)
  have act: "rest_handler s k (HTTPError 429) = SleepAndContinue (rate_limit_delay s * 2 ^ k)" by simp
  from conversation_steps_retried [OF made body b act] show ?thesis by simp
qed

text \<open>
  A call that has its outcome after some number of steps of the polling is a call that
  ends, with the same events, summarizer and outcome.
\<close>

lemma conversation_attempt_steps_ends:
  assumes a: "conversation_attempt_steps fuel post get elapsed items url key body s k = (ev, s', Some b)"
  shows "conversation_attempt post get elapsed items url key body s k = Some (ev, s', b)"
proof (cases "post k")
  case (PostRaise e)
  with a show ?thesis by (auto simp: conversation_attempt_steps_def conversation_attempt_def Let_def)
next
  case (PostResponse code loc)
  show ?thesis
  proof (cases "raise_for_status code \<or> loc = None \<or> loc = Some []")
    case True
    with a PostResponse show ?thesis
      by (auto simp: conversation_attempt_steps_def conversation_attempt_def Let_def split: if_splits)
  next
    case False
    then have f: "\<not> raise_for_status code" "loc \<noteq> None" "loc \<noteq> Some []" by simp_all
    obtain tr r where p: "poll_steps fuel (get k) (the loc) key 0 = (tr, r)"
      by (cases "poll_steps fuel (get k) (the loc) key 0") auto
    show ?thesis
    proof (cases r)
      case None
      with a PostResponse f p show ?thesis
        by (auto simp: conversation_attempt_steps_def Let_def)
    next
      case (Some y)
      with p have "poll (get k) (the loc) key 0 = Some (tr, y)" by (simp add: poll_steps_poll)
      with a PostResponse f p Some show ?thesis
        by (cases y; cases "total_chars items")
           (auto simp: conversation_attempt_steps_def conversation_attempt_def Let_def)
    qed
  qed
qed

lemma retry_loop_steps_ends:
  assumes link: "\<forall>s k ev s' b. body s k = (ev, s', Some b) \<longrightarrow> body' s k = Some (ev, s', b)"
  shows "retry_loop_steps h body s as = (tr, s_end, Some out) \<Longrightarrow>
         retry_loop_opt h body' s as = Some (tr, s_end, out)"
proof (induction as arbitrary: s tr)
  case Nil
  then show ?case by simp
next
  case (Cons a rest)
  obtain ev s' b where b: "body s a = (ev, s', b)" by (cases "body s a") auto
  show ?case
  proof (cases b)
    case None
    with b Cons.prems show ?thesis by simp
  next
    case (Some x)
    with b link have b': "body' s a = Some (ev, s', x)" by blast
    show ?thesis
    proof (cases x)
      case (BodyReturn r)
      with b b' Some Cons.prems show ?thesis by simp
    next
      case BodyBreak
      with b b' Some Cons.prems show ?thesis by simp
    next
      case (BodyRaise e)
      show ?thesis
      proof (cases "h s' a e")
        case Reraise
        with b b' Some BodyRaise Cons.prems show ?thesis by simp
      next
        case (SleepAndContinue d)
        obtain tr' s2 r where rest: "retry_loop_steps h body s' rest = (tr', s2, r)"
          by (cases "retry_loop_steps h body s' rest") auto
        with b Some BodyRaise SleepAndContinue Cons.prems
        have eq: "tr = ev @ Sleep d # tr'" "s2 = s_end" "r = Some out" by simp_all
        from Cons.IH [of s' tr'] rest eq
        have "retry_loop_opt h body' s' rest = Some (tr', s_end, out)" by simp
        with b' BodyRaise SleepAndContinue eq show ?thesis by simp
      qed
    qed
  qed
qed

lemma conversation_steps_ends:
  assumes run: "conversation_summarization_steps fuel s post get elapsed items aspects =
                  (tr, s_end, Some out)"
  shows "conversation_summarization s post get elapsed items aspects = Some (tr, s_end, out)"
proof (cases "items = [] \<or> (\<exists>e. build_data items aspects = Inl e)")
  case True
  with run show ?thesis
    by (auto simp: conversation_summarization_steps_def conversation_summarization_def
        split: prod.splits)
next
  case False
  then obtain body where items: "items \<noteq> []" and body: "build_data items aspects = Inr body"
    by (cases "build_data items aspects") auto
  let ?steps = "retry_loop_steps rest_handler
      (conversation_attempt_steps fuel post get elapsed items (job_url s) (api_key s) body)
      s [0 ..< max_retries s]"
  obtain tr0 s0 r where st: "?steps = (tr0, s0, r)" by (cases ?steps) auto
  from run st items body obtain out0 where r: "r = Some out0"
    and f: "finish_conversation items elapsed (tr0, s0, out0) = (tr, s_end, out)"
    by (cases r) (auto simp: conversation_summarization_steps_def split: prod.splits)
  have link: "\<forall>t k ev s' b.
      conversation_attempt_steps fuel post get elapsed items (job_url s) (api_key s) body t k =
        (ev, s', Some b) \<longrightarrow>
      conversation_attempt post get elapsed items (job_url s) (api_key s) body t k = Some (ev, s', b)"
    by (intro allI impI) (rule conversation_attempt_steps_ends)
  from st r have "?steps = (tr0, s0, Some out0)" by simp
  with link have "retry_loop_opt rest_handler
          (conversation_attempt post get elapsed items (job_url s) (api_key s) body)
          s [0 ..< max_retries s] = Some (tr0, s0, out0)"
    by (rule retry_loop_steps_ends)
  with items body f show ?thesis by (simp add: conversation_summarization_def)
qed

section \<open>More steps of the polling\<close>

text \<open>
  With one more step the polling loop goes on from where it was: its events so far stay,
  and a result that was there stays too.
\<close>

lemma poll_steps_Suc:
  "(\<exists>rest. fst (poll_steps (Suc fuel) get loc key i) = fst (poll_steps fuel get loc key i) @ rest) \<and>
   (\<forall>r. snd (poll_steps fuel get loc key i) = Some r \<longrightarrow>
        poll_steps (Suc fuel) get loc key i = poll_steps fuel get loc key i)"
proof (induction fuel arbitrary: i)
  case 0
  show ?case by simp
next
  case (Suc fuel)
  show ?case
  proof (cases "ends_poll (get i)")
    case True
    then show ?thesis by (cases "get i") auto
  next
    case False
    then obtain code d where g: "get i = GetResponse code d" by (cases "get i") simp_all
    from False g have ne: "\<not> raise_for_status code" "job_status d \<noteq> ''succeeded''"
      "job_status d \<noteq> ''failed''" by simp_all
    obtain tr r where p: "poll_steps fuel get loc key (i + 1) = (tr, r)"
      by (cases "poll_steps fuel get loc key (i + 1)") auto
    obtain tr' r' where p': "poll_steps (Suc fuel) get loc key (i + 1) = (tr', r')"
      by (cases "poll_steps (Suc fuel) get loc key (i + 1)") auto
    from Suc [of "i + 1"] p p' obtain rest where
      rest: "tr' = tr @ rest" and same: "\<forall>x. r = Some x \<longrightarrow> (tr', r') = (tr, r)"
      by auto
    have now: "poll_steps (Suc fuel) get loc key i = (HttpGet loc key # Sleep 2 # tr, r)"
      using g ne p by simp
    have next_: "poll_steps (Suc (Suc fuel)) get loc key i = (HttpGet loc key # Sleep 2 # tr', r')"
      using g ne p' by (simp del: poll_steps.simps add: poll_steps.simps(2) [of "Suc fuel"])
    from now next_ rest same show ?thesis by auto
  qed
qed

lemma poll_steps_more:
  "poll_steps fuel get loc key i = (tr, Some r) \<Longrightarrow>
   poll_steps (fuel + more_fuel) get loc key i = (tr, Some r)"
proof (induction more_fuel)
  case 0
  then show ?case by simp
next
  case (Suc m)
  then have "poll_steps (fuel + m) get loc key i = (tr, Some r)" by simp
  with poll_steps_Suc [of "fuel + m" get loc key i] show ?case by simp
qed

text \<open>A polling loop that ends has its result after some number of steps.\<close>

lemma poll_poll_steps:
  "poll get loc key i = Some y \<Longrightarrow> \<exists>fuel. poll_steps fuel get loc key i = (fst y, Some (snd y))"
proof (induction rule: poll.raw_induct [rotated 1, consumes 1])
  case (1 poll get loc key i y)
  show ?case
  proof (cases "ends_poll (get i)")
    case True
    with 1(2) have "poll_steps (Suc 0) get loc key i = (fst y, Some (snd y))"
      by (cases "get i") (auto split: if_splits)
    then show ?thesis by blast
  next
    case False
    then obtain code d where g: "get i = GetResponse code d" by (cases "get i") simp_all
    from False g have ne: "\<not> raise_for_status code" "job_status d \<noteq> ''succeeded''" "job_status d \<noteq> ''failed''"
      by simp_all
    from 1(2) have b: "Option.bind (poll get loc key (i + 1))
        (\<lambda>p. Some (HttpGet loc key # Sleep 2 # fst p, snd p)) = Some y"
      by (simp add: g ne)
    then obtain y' where y': "poll get loc key (i + 1) = Some y'"
      by (cases "poll get loc key (i + 1)") simp_all
    with b have y: "y = (HttpGet loc key # Sleep 2 # fst y', snd y')" by simp
    from 1(1) [OF y'] obtain fuel where "poll_steps fuel get loc key (i + 1) = (fst y', Some (snd y'))"
      by blast
    with g ne y have "poll_steps (Suc fuel) get loc key i = (fst y, Some (snd y))" by simp
    then show ?thesis by blast
  qed
qed

text \<open>
  The same for the \<open>try\<close> block of an attempt, for the retry loop and for the call: one
  more step keeps the events so far, and an outcome that was there.
\<close>

lemma conversation_attempt_steps_Suc:
  "(\<exists>rest. fst (conversation_attempt_steps (Suc fuel) post get elapsed items url key body s k) =
            fst (conversation_attempt_steps fuel post get elapsed items url key body s k) @ rest) \<and>
   (\<forall>b. snd (snd (conversation_attempt_steps fuel post get elapsed items url key body s k)) = Some b \<longrightarrow>
        conversation_attempt_steps (Suc fuel) post get elapsed items url key body s k =
        conversation_attempt_steps fuel post get elapsed items url key body s k)"
proof (cases "post k")
  case (PostRaise e)
  then show ?thesis by (simp add: conversation_attempt_steps_def Let_def)
next
  case (PostResponse code loc)
  show ?thesis
  proof (cases "raise_for_status code \<or> loc = None \<or> loc = Some []")
    case True
    with PostResponse show ?thesis by (auto simp: conversation_attempt_steps_def Let_def)
  next
    case False
    then have f: "\<not> raise_for_status code" "loc \<noteq> None" "loc \<noteq> Some []" by simp_all
    obtain tr r where p: "poll_steps fuel (get k) (the loc) key 0 = (tr, r)"
      by (cases "poll_steps fuel (get k) (the loc) key 0") auto
    obtain tr' r' where p': "poll_steps (Suc fuel) (get k) (the loc) key 0 = (tr', r')"
      by (cases "poll_steps (Suc fuel) (get k) (the loc) key 0") auto
    from poll_steps_Suc [of fuel "get k" "the loc" key 0] p p' obtain rest where
      rest: "tr' = tr @ rest" and same: "\<forall>x. r = Some x \<longrightarrow> (tr', r') = (tr, r)"
      by auto
    have unfold: "conversation_attempt_steps n post get elapsed items url key body s k =
        (case poll_steps n (get k) (the loc) key 0 of
               (tr, None) \<Rightarrow> (HttpPost url key body # tr, s, None)
             | (tr, Some (Inl e)) \<Rightarrow> (HttpPost url key body # tr, s, Some (BodyRaise e))
             | (tr, Some (Inr d)) \<Rightarrow>
                 (case total_chars items of
                    Inl e \<Rightarrow> (HttpPost url key body # tr, s, Some (BodyRaise e))
                  | Inr n \<Rightarrow>
                      (HttpPost url key body # tr, update_stats s n elapsed True,
                       Some (BodyReturn (parse_results d)))))" for n
      using PostResponse f by (auto simp: conversation_attempt_steps_def Let_def)
    show ?thesis
    proof (cases r)
      case None
      have "fst (conversation_attempt_steps (Suc fuel) post get elapsed items url key body s k) =
          HttpPost url key body # tr'"
        unfolding unfold p' by (simp split: option.splits sum.splits)
      moreover have "conversation_attempt_steps fuel post get elapsed items url key body s k =
          (HttpPost url key body # tr, s, None)"
        unfolding unfold p using None by simp
      ultimately show ?thesis using rest by simp
    next
      case (Some x)
      with same have "(tr', r') = (tr, r)" by simp
      with p p' have "poll_steps (Suc fuel) (get k) (the loc) key 0 = poll_steps fuel (get k) (the loc) key 0"
        by simp
      then have "conversation_attempt_steps (Suc fuel) post get elapsed items url key body s k =
        conversation_attempt_steps fuel post get elapsed items url key body s k"
        unfolding unfold by simp
      then show ?thesis by simp
    qed
  qed
qed

lemma retry_loop_steps_grow:
  assumes grow: "\<forall>s k. (\<exists>rest. fst (body' s k) = fst (body s k) @ rest) \<and>
                   (\<forall>b. snd (snd (body s k)) = Some b \<longrightarrow> body' s k = body s k)"
  shows "(\<exists>rest. fst (retry_loop_steps h body' s as) = fst (retry_loop_steps h body s as) @ rest) \<and>
         (\<forall>out. snd (snd (retry_loop_steps h body s as)) = Some out \<longrightarrow>
              retry_loop_steps h body' s as = retry_loop_steps h body s as)"
proof (induction as arbitrary: s)
  case Nil
  show ?case by simp
next
  case (Cons a rest)
  obtain ev s' b where b: "body s a = (ev, s', b)" by (cases "body s a") auto
  show ?case
  proof (cases b)
    case None
    obtain ev' s2 b' where b': "body' s a = (ev', s2, b')" by (cases "body' s a") auto
    from grow have "\<exists>t. fst (body' s a) = fst (body s a) @ t" by blast
    with b b' obtain more_events where ev': "ev' = ev @ more_events" by auto
    have "\<exists>t. fst (retry_loop_steps h body' s (a # rest)) = ev' @ t"
      using b' by (auto split: option.splits body_outcome.splits handler_action.splits prod.splits)
    with ev' b None show ?thesis by auto
  next
    case (Some x)
    from grow have "\<forall>y. snd (snd (body s a)) = Some y \<longrightarrow> body' s a = body s a" by blast
    with b Some have b': "body' s a = (ev, s', Some x)" by simp
    show ?thesis
    proof (cases x)
      case (BodyReturn r)
      with b b' Some show ?thesis by simp
    next
      case BodyBreak
      with b b' Some show ?thesis by simp
    next
      case (BodyRaise e)
      show ?thesis
      proof (cases "h s' a e")
        case Reraise
        with b b' Some BodyRaise show ?thesis by simp
      next
        case (SleepAndContinue d)
        obtain tr s2 r where l: "retry_loop_steps h body s' rest = (tr, s2, r)"
          by (cases "retry_loop_steps h body s' rest") auto
        obtain tr' s2' r' where l': "retry_loop_steps h body' s' rest = (tr', s2', r')"
          by (cases "retry_loop_steps h body' s' rest") auto
        from Cons.IH [of s'] l l' obtain t where
          t: "tr' = tr @ t" and same: "\<forall>out. r = Some out \<longrightarrow> (tr', s2', r') = (tr, s2, r)"
          by auto
        have now: "retry_loop_steps h body s (a # rest) = (ev @ Sleep d # tr, s2, r)"
          using b Some BodyRaise SleepAndContinue l by simp
        have next_: "retry_loop_steps h body' s (a # rest) = (ev @ Sleep d # tr', s2', r')"
          using b' BodyRaise SleepAndContinue l' by simp
        from now next_ t same show ?thesis by auto
      qed
    qed
  qed
qed

lemma conversation_steps_Suc:
  "(\<exists>rest. fst (conversation_summarization_steps (Suc fuel) s post get elapsed items aspects) =
            fst (conversation_summarization_steps fuel s post get elapsed items aspects) @ rest) \<and>
   (\<forall>out. snd (snd (conversation_summarization_steps fuel s post get elapsed items aspects)) = Some out \<longrightarrow>
        conversation_summarization_steps (Suc fuel) s post get elapsed items aspects =
        conversation_summarization_steps fuel s post get elapsed items aspects)"
proof (cases "items = [] \<or> (\<exists>e. build_data items aspects = Inl e)")
  case True
  then show ?thesis
    by (auto simp: conversation_summarization_steps_def)
next
  case False
  then obtain body where items: "items \<noteq> []" and body: "build_data items aspects = Inr body"
    by (cases "build_data items aspects") auto
  let ?l = "\<lambda>n. retry_loop_steps rest_handler
      (conversation_attempt_steps n post get elapsed items (job_url s) (api_key s) body)
      s [0 ..< max_retries s]"
  have fst_finish: "fst (finish_conversation items elapsed res) = fst res"
    for res :: "event list \<times> summarizer \<times> conversation_summary loop_outcome"
    by (cases res) (auto simp: finish_conversation_def split: loop_outcome.splits sum.splits)
  have unfold: "conversation_summarization_steps n s post get elapsed items aspects =
      (case ?l n of
        (tr, s', None) \<Rightarrow> (tr, s', None)
      | (tr, s', Some out) \<Rightarrow>
          (case finish_conversation items elapsed (tr, s', out) of
             (tr', s'', r) \<Rightarrow> (tr', s'', Some r)))" for n
    using items body by (simp add: conversation_summarization_steps_def)
  have fst_steps: "fst (conversation_summarization_steps n s post get elapsed items aspects) = fst (?l n)" for n
  proof -
    obtain tr s' r where l: "?l n = (tr, s', r)" by (cases "?l n") auto
    show ?thesis
    proof (cases r)
      case None
      with l show ?thesis unfolding unfold by simp
    next
      case (Some out)
      obtain tr' s'' r' where f: "finish_conversation items elapsed (tr, s', out) = (tr', s'', r')"
        by (cases "finish_conversation items elapsed (tr, s', out)") auto
      with fst_finish [of "(tr, s', out)"] have "tr' = tr" by simp
      with l Some f show ?thesis unfolding unfold by simp
    qed
  qed
  have none: "snd (snd (conversation_summarization_steps fuel s post get elapsed items aspects)) = None"
    if "snd (snd (?l fuel)) = None"
  proof -
    obtain tr s' r where l: "?l fuel = (tr, s', r)" by (cases "?l fuel") auto
    with that show ?thesis unfolding unfold by simp
  qed
  have "\<forall>t k. (\<exists>rest.
        fst (conversation_attempt_steps (Suc fuel) post get elapsed items (job_url s) (api_key s) body t k) =
        fst (conversation_attempt_steps fuel post get elapsed items (job_url s) (api_key s) body t k) @ rest) \<and>
      (\<forall>b. snd (snd (conversation_attempt_steps fuel post get elapsed items (job_url s) (api_key s) body t k)) = Some b \<longrightarrow>
        conversation_attempt_steps (Suc fuel) post get elapsed items (job_url s) (api_key s) body t k =
        conversation_attempt_steps fuel post get elapsed items (job_url s) (api_key s) body t k)"
    by (intro allI) (rule conversation_attempt_steps_Suc)
  then have grow:
    "(\<exists>rest. fst (?l (Suc fuel)) = fst (?l fuel) @ rest) \<and>
     (\<forall>out. snd (snd (?l fuel)) = Some out \<longrightarrow> ?l (Suc fuel) = ?l fuel)"
    by (rule retry_loop_steps_grow)
  have "conversation_summarization_steps (Suc fuel) s post get elapsed items aspects =
        conversation_summarization_steps fuel s post get elapsed items aspects"
    if "snd (snd (conversation_summarization_steps fuel s post get elapsed items aspects)) = Some out" for out
  proof -
    from that none obtain o' where "snd (snd (?l fuel)) = Some o'"
      by (cases "snd (snd (?l fuel))") auto
    with grow have "?l (Suc fuel) = ?l fuel" by blast
    then show ?thesis unfolding unfold by simp
  qed
  with grow fst_steps show ?thesis by auto
qed

text \<open>A call that ends has its outcome after some number of steps of the polling.\<close>

lemma conversation_steps_more:
  "conversation_summarization_steps fuel s post get elapsed items aspects = (tr, s_end, Some out) \<Longrightarrow>
   conversation_summarization_steps (fuel + more_fuel) s post get elapsed items aspects =
     (tr, s_end, Some out)"
proof (induction more_fuel)
  case 0
  then show ?case by simp
next
  case (Suc m)
  then have "conversation_summarization_steps (fuel + m) s post get elapsed items aspects =
     (tr, s_end, Some out)" by simp
  with conversation_steps_Suc [of "fuel + m" s post get elapsed items aspects] show ?case by simp
qed

lemma conversation_attempt_steps_more:
  "(\<exists>rest. fst (conversation_attempt_steps (fuel + more_fuel) post get elapsed items url key body s k) =
            fst (conversation_attempt_steps fuel post get elapsed items url key body s k) @ rest) \<and>
   (\<forall>b. snd (snd (conversation_attempt_steps fuel post get elapsed items url key body s k)) = Some b \<longrightarrow>
        conversation_attempt_steps (fuel + more_fuel) post get elapsed items url key body s k =
        conversation_attempt_steps fuel post get elapsed items url key body s k)"
proof (induction more_fuel)
  case 0
  show ?case by simp
next
  case (Suc m)
  from conversation_attempt_steps_Suc [of "fuel + m" post get elapsed items url key body s k]
  have step: "(\<exists>rest. fst (conversation_attempt_steps (fuel + Suc m) post get elapsed items url key body s k) =
            fst (conversation_attempt_steps (fuel + m) post get elapsed items url key body s k) @ rest) \<and>
   (\<forall>b. snd (snd (conversation_attempt_steps (fuel + m) post get elapsed items url key body s k)) = Some b \<longrightarrow>
        conversation_attempt_steps (fuel + Suc m) post get elapsed items url key body s k =
        conversation_attempt_steps (fuel + m) post get elapsed items url key body s k)"
    by simp
  from Suc step show ?case by (metis append.assoc)
qed

text \<open>An attempt that ends has its outcome after some number of steps of its polling.\<close>

lemma conversation_attempt_ends_steps:
  assumes a: "conversation_attempt post get elapsed items url key body s k = Some (ev, s', b)"
  shows "\<exists>fuel. conversation_attempt_steps fuel post get elapsed items url key body s k = (ev, s', Some b)"
proof (cases "post k")
  case (PostRaise e)
  with a show ?thesis by (auto simp: conversation_attempt_steps_def conversation_attempt_def Let_def)
next
  case (PostResponse code loc)
  show ?thesis
  proof (cases "raise_for_status code \<or> loc = None \<or> loc = Some []")
    case True
    with a PostResponse show ?thesis
      by (auto simp: conversation_attempt_steps_def conversation_attempt_def Let_def split: if_splits)
  next
    case False
    then have f: "\<not> raise_for_status code" "loc \<noteq> None" "loc \<noteq> Some []" by simp_all
    from a PostResponse f obtain y where p: "poll (get k) (the loc) key 0 = Some y"
      by (cases "poll (get k) (the loc) key 0") (auto simp: conversation_attempt_def Let_def)
    from poll_poll_steps [OF p] obtain fuel where
      ps: "poll_steps fuel (get k) (the loc) key 0 = (fst y, Some (snd y))" by blast
    from a PostResponse f p ps
    have "conversation_attempt_steps fuel post get elapsed items url key body s k = (ev, s', Some b)"
      by (cases y; cases "snd y"; cases "total_chars items")
         (auto simp: conversation_attempt_steps_def conversation_attempt_def Let_def)
    then show ?thesis by blast
  qed
qed

lemma retry_loop_opt_steps:
  assumes seen: "\<forall>t k ev s' b. body' t k = Some (ev, s', b) \<longrightarrow> (\<exists>n::nat. body n t k = (ev, s', Some b))"
    and grow: "\<forall>n m t k. (\<exists>rest. fst (body (n + m) t k) = fst (body n t k) @ rest) \<and>
                 (\<forall>b. snd (snd (body n t k)) = Some b \<longrightarrow> body (n + m) t k = body n t k)"
  shows "retry_loop_opt h body' s as = Some (tr, s_end, out) \<Longrightarrow>
         \<exists>n. retry_loop_steps h (body n) s as = (tr, s_end, Some out)"
proof (induction as arbitrary: s tr)
  case Nil
  then show ?case by simp
next
  case (Cons a rest)
  from Cons.prems obtain ev s' x where b': "body' s a = Some (ev, s', x)"
    by (cases "body' s a") auto
  with seen obtain n1 where b: "body n1 s a = (ev, s', Some x)" by blast
  show ?case
  proof (cases x)
    case (BodyReturn r)
    with b b' Cons.prems have "retry_loop_steps h (body n1) s (a # rest) = (tr, s_end, Some out)"
      by simp
    then show ?thesis by blast
  next
    case BodyBreak
    with b b' Cons.prems have "retry_loop_steps h (body n1) s (a # rest) = (tr, s_end, Some out)"
      by simp
    then show ?thesis by blast
  next
    case (BodyRaise e)
    show ?thesis
    proof (cases "h s' a e")
      case Reraise
      with b b' BodyRaise Cons.prems
      have "retry_loop_steps h (body n1) s (a # rest) = (tr, s_end, Some out)" by simp
      then show ?thesis by blast
    next
      case (SleepAndContinue d)
      with b' BodyRaise Cons.prems obtain tr' where
        l': "retry_loop_opt h body' s' rest = Some (tr', s_end, out)" and tr: "tr = ev @ Sleep d # tr'"
        by (cases "retry_loop_opt h body' s' rest") auto
      from Cons.IH [OF l'] obtain n2 where
        l: "retry_loop_steps h (body n2) s' rest = (tr', s_end, Some out)" by blast
      from grow have "\<forall>t k. (\<exists>rest. fst (body (n2 + n1) t k) = fst (body n2 t k) @ rest) \<and>
                 (\<forall>b. snd (snd (body n2 t k)) = Some b \<longrightarrow> body (n2 + n1) t k = body n2 t k)"
        by blast
      from retry_loop_steps_grow [OF this, of h s' rest] l
      have l2: "retry_loop_steps h (body (n2 + n1)) s' rest = (tr', s_end, Some out)" by simp
      from grow have "\<forall>y. snd (snd (body n1 s a)) = Some y \<longrightarrow> body (n1 + n2) s a = body n1 s a"
        by blast
      with b have "body (n1 + n2) s a = (ev, s', Some x)" by simp
      moreover have "n1 + n2 = n2 + n1" by simp
      ultimately have b2: "body (n2 + n1) s a = (ev, s', Some x)" by metis
      from b2 BodyRaise SleepAndContinue l2 tr
      have "retry_loop_steps h (body (n2 + n1)) s (a # rest) = (tr, s_end, Some out)" by simp
      then show ?thesis by blast
    qed
  qed
qed

text \<open>
  A call that ends is seen to end after some number of steps of the polling, with the same
  events, summarizer and outcome.
\<close>

lemma conversation_ends_steps:
  assumes run: "conversation_summarization s post get elapsed items aspects = Some (tr, s_end, out)"
  shows "\<exists>fuel. conversation_summarization_steps fuel s post get elapsed items aspects =
           (tr, s_end, Some out)"
proof (cases "items = [] \<or> (\<exists>e. build_data items aspects = Inl e)")
  case True
  with run have "conversation_summarization_steps 0 s post get elapsed items aspects =
           (tr, s_end, Some out)"
    by (auto simp: conversation_summarization_steps_def conversation_summarization_def)
  then show ?thesis by blast
next
  case False
  then obtain body where items: "items \<noteq> []" and body: "build_data items aspects = Inr body"
    by (cases "build_data items aspects") auto
  from run items body obtain res where
    res: "retry_loop_opt rest_handler
            (conversation_attempt post get elapsed items (job_url s) (api_key s) body)
            s [0 ..< max_retries s] = Some res"
      "finish_conversation items elapsed res = (tr, s_end, out)"
    by (auto simp: conversation_summarization_def)
  obtain tr0 s0 out0 where r0: "res = (tr0, s0, out0)" by (cases res) auto
  have seen: "\<forall>t k ev s' b.
      conversation_attempt post get elapsed items (job_url s) (api_key s) body t k = Some (ev, s', b) \<longrightarrow>
      (\<exists>n. conversation_attempt_steps n post get elapsed items (job_url s) (api_key s) body t k =
              (ev, s', Some b))"
    by (intro allI impI) (rule conversation_attempt_ends_steps)
  have grow: "\<forall>n m t k.
      (\<exists>rest. fst (conversation_attempt_steps (n + m) post get elapsed items (job_url s) (api_key s) body t k) =
               fst (conversation_attempt_steps n post get elapsed items (job_url s) (api_key s) body t k) @ rest) \<and>
      (\<forall>b. snd (snd (conversation_attempt_steps n post get elapsed items (job_url s) (api_key s) body t k)) = Some b \<longrightarrow>
           conversation_attempt_steps (n + m) post get elapsed items (job_url s) (api_key s) body t k =
           conversation_attempt_steps n post get elapsed items (job_url s) (api_key s) body t k)"
    by (intro allI) (rule conversation_attempt_steps_more)
  from res(1) r0 have "retry_loop_opt rest_handler
            (conversation_attempt post get elapsed items (job_url s) (api_key s) body)
            s [0 ..< max_retries s] = Some (tr0, s0, out0)" by simp
  from retry_loop_opt_steps [where body = "\<lambda>n. conversation_attempt_steps n post get elapsed items (job_url s) (api_key s) body", OF seen grow this]
  obtain n where "retry_loop_steps rest_handler
          (conversation_attempt_steps n post get elapsed items (job_url s) (api_key s) body)
          s [0 ..< max_retries s] = (tr0, s0, Some out0)" by blast
  with items body res(2) r0
  have "conversation_summarization_steps n s post get elapsed items aspects = (tr, s_end, Some out)"
    by (simp add: conversation_summarization_steps_def)
  then show ?thesis by blast
qed

section \<open>The rate limit: sleep and retry\<close>

text \<open>
  C1, as the code has it. With the configuration of \<open>__init__\<close>, when attempt number
  \<open>k\<close> of \<open>extractive_summarization\<close>, \<open>abstractive_summarization\<close> or
  \<open>conversation_summarization\<close> is made and fails with the status 429, the events of
  the attempt are followed at once by a sleep of \<open>2 * 2 ^ k\<close> seconds; and for
  \<open>k < 2\<close>, that is before the last attempt, the sleep is followed at once by the same
  request again. For \<open>conversation_summarization\<close> this is said of the events of the call
  after any number of steps of the polling, so also of a call that never ends; and when
  the service answers 429 to the \<open>post\<close> of every attempt up to number \<open>k\<close>, the \<open>post\<close>
  of attempt \<open>k\<close> is made, followed by the sleep and, for \<open>k < 2\<close>, by the \<open>post\<close> again,
  whatever happens afterwards. The last part is the same for a call that ends, on its
  events.
\<close>

theorem rate_limit_sleep_then_retry:
  assumes cfg: "max_retries s = 3 \<and> rate_limit_delay s = 2"
  shows
    "(k < requests (fst (extractive_summarization s client elapsed text sentence_count sort_by)) \<and>
      client k = SdkRaise (HttpResponseError (Some 429)) \<longrightarrow>
        (\<exists>pre post.
           fst (extractive_summarization s client elapsed text sentence_count sort_by) =
             pre @ BeginAnalyzeActions [text] [ExtractiveSummaryAction sentence_count sort_by]
                 # Sleep (2 * 2 ^ k) # post \<and>
           requests pre = k \<and>
           (k < 2 \<longrightarrow>
              (\<exists>rest. post =
                 BeginAnalyzeActions [text] [ExtractiveSummaryAction sentence_count sort_by] # rest)))) \<and>
     (k < requests (fst (abstractive_summarization s client' elapsed text summary_length)) \<and>
      client' k = SdkRaise (HttpResponseError (Some 429)) \<longrightarrow>
        (\<exists>pre post.
           fst (abstractive_summarization s client' elapsed text summary_length) =
             pre @ BeginAnalyzeActions [text] [AbstractiveSummaryAction summary_length]
                 # Sleep (2 * 2 ^ k) # post \<and>
           requests pre = k \<and>
           (k < 2 \<longrightarrow>
              (\<exists>rest. post =
                 BeginAnalyzeActions [text] [AbstractiveSummaryAction summary_length] # rest)))) \<and>
     (k < requests (fst (conversation_summarization_steps fuel s post get elapsed items aspects)) \<and>
      build_data items aspects = Inr body \<and>
      conversation_attempt_steps fuel post get elapsed items (job_url s) (api_key s) body s k =
        (ev, s', Some (BodyRaise (HTTPError 429))) \<longrightarrow>
        (\<exists>pre post'.
           fst (conversation_summarization_steps fuel s post get elapsed items aspects) =
             pre @ ev @ Sleep (2 * 2 ^ k) # post' \<and>
           requests pre = k \<and>
           (k < 2 \<longrightarrow>
              (\<exists>rest. post' = HttpPost (job_url s) (api_key s) body # rest)))) \<and>
     (k < 3 \<and> items \<noteq> [] \<and> build_data items aspects = Inr body \<and>
      (\<forall>j\<le>k. \<exists>loc. post j = PostResponse 429 loc) \<longrightarrow>
        (\<exists>pre post'.
           fst (conversation_summarization_steps fuel s post get elapsed items aspects) =
             pre @ HttpPost (job_url s) (api_key s) body # Sleep (2 * 2 ^ k) # post' \<and>
           requests pre = k \<and>
           (k < 2 \<longrightarrow>
              (\<exists>rest. post' = HttpPost (job_url s) (api_key s) body # rest)))) \<and>
     (conversation_summarization s post get elapsed items aspects = Some (tr, s_end, out) \<and>
      k < requests tr \<and> build_data items aspects = Inr body \<and>
      conversation_attempt post get elapsed items (job_url s) (api_key s) body s k =
        Some (ev', s'', BodyRaise (HTTPError 429)) \<longrightarrow>
        (\<exists>pre post'.
           tr = pre @ ev' @ Sleep (2 * 2 ^ k) # post' \<and>
           requests pre = k \<and>
           (k < 2 \<longrightarrow>
              (\<exists>rest. post' = HttpPost (job_url s) (api_key s) body # rest))))"
proof (intro conjI impI)
  assume a: "k < requests (fst (extractive_summarization s client elapsed text sentence_count sort_by)) \<and>
      client k = SdkRaise (HttpResponseError (Some 429))"
  then have b: "extractive_attempt client elapsed text (ExtractiveSummaryAction sentence_count sort_by) s k =
      ([BeginAnalyzeActions [text] [ExtractiveSummaryAction sentence_count sort_by]], s,
       BodyRaise (HttpResponseError (Some 429)))"
    by (simp add: extractive_attempt_raise)
  have act: "sdk_handler s k (HttpResponseError (Some 429)) = SleepAndContinue (2 * 2 ^ k)"
    using cfg by simp
  from a have made: "k < requests (fst (extractive_summarization s client elapsed text sentence_count sort_by))"
    by simp
  from extractive_retried [OF made b act] cfg
  show "\<exists>pre post.
           fst (extractive_summarization s client elapsed text sentence_count sort_by) =
             pre @ BeginAnalyzeActions [text] [ExtractiveSummaryAction sentence_count sort_by]
                 # Sleep (2 * 2 ^ k) # post \<and>
           requests pre = k \<and>
           (k < 2 \<longrightarrow>
              (\<exists>rest. post =
                 BeginAnalyzeActions [text] [ExtractiveSummaryAction sentence_count sort_by] # rest))"
    by auto
next
  assume a: "k < requests (fst (abstractive_summarization s client' elapsed text summary_length)) \<and>
      client' k = SdkRaise (HttpResponseError (Some 429))"
  then have b: "abstractive_attempt client' elapsed text (AbstractiveSummaryAction summary_length) s k =
      ([BeginAnalyzeActions [text] [AbstractiveSummaryAction summary_length]], s,
       BodyRaise (HttpResponseError (Some 429)))"
    by (simp add: abstractive_attempt_raise)
  have act: "sdk_handler s k (HttpResponseError (Some 429)) = SleepAndContinue (2 * 2 ^ k)"
    using cfg by simp
  from a have made: "k < requests (fst (abstractive_summarization s client' elapsed text summary_length))"
    by simp
  from abstractive_retried [OF made b act] cfg
  show "\<exists>pre post.
           fst (abstractive_summarization s client' elapsed text summary_length) =
             pre @ BeginAnalyzeActions [text] [AbstractiveSummaryAction summary_length]
                 # Sleep (2 * 2 ^ k) # post \<and>
           requests pre = k \<and>
           (k < 2 \<longrightarrow>
              (\<exists>rest. post =
                 BeginAnalyzeActions [text] [AbstractiveSummaryAction summary_length] # rest))"
    by auto
next
  assume a: "k < requests (fst (conversation_summarization_steps fuel s post get elapsed items aspects)) \<and>
      build_data items aspects = Inr body \<and>
      conversation_attempt_steps fuel post get elapsed items (job_url s) (api_key s) body s k =
        (ev, s', Some (BodyRaise (HTTPError 429)))"
  have act: "rest_handler s k (HTTPError 429) = SleepAndContinue (2 * 2 ^ k)"
    using cfg by simp
  from a have made: "k < requests (fst (conversation_summarization_steps fuel s post get elapsed items aspects))"
    and body: "build_data items aspects = Inr body"
    and b: "conversation_attempt_steps fuel post get elapsed items (job_url s) (api_key s) body s k =
        (ev, s', Some (BodyRaise (HTTPError 429)))"
    by simp_all
  from conversation_steps_retried [OF made body b act] cfg
  show "\<exists>pre post'.
           fst (conversation_summarization_steps fuel s post get elapsed items aspects) =
             pre @ ev @ Sleep (2 * 2 ^ k) # post' \<and>
           requests pre = k \<and>
           (k < 2 \<longrightarrow>
              (\<exists>rest. post' = HttpPost (job_url s) (api_key s) body # rest))"
    by auto
next
  assume a: "k < 3 \<and> items \<noteq> [] \<and> build_data items aspects = Inr body \<and>
      (\<forall>j\<le>k. \<exists>loc. post j = PostResponse 429 loc)"
  then have k: "k < max_retries s" and items: "items \<noteq> []"
    and body: "build_data items aspects = Inr body"
    and limited: "\<forall>j\<le>k. \<exists>loc. post j = PostResponse 429 loc"
    using cfg by simp_all
  from conversation_steps_rate_limited [OF k items body limited, of fuel get elapsed] cfg
  show "\<exists>pre post'.
           fst (conversation_summarization_steps fuel s post get elapsed items aspects) =
             pre @ HttpPost (job_url s) (api_key s) body # Sleep (2 * 2 ^ k) # post' \<and>
           requests pre = k \<and>
           (k < 2 \<longrightarrow>
              (\<exists>rest. post' = HttpPost (job_url s) (api_key s) body # rest))"
    by auto
next
  assume a: "conversation_summarization s post get elapsed items aspects = Some (tr, s_end, out) \<and>
      k < requests tr \<and> build_data items aspects = Inr body \<and>
      conversation_attempt post get elapsed items (job_url s) (api_key s) body s k =
        Some (ev', s'', BodyRaise (HTTPError 429))"
  have act: "rest_handler s k (HTTPError 429) = SleepAndContinue (2 * 2 ^ k)"
    using cfg by simp
  from a have run: "conversation_summarization s post get elapsed items aspects = Some (tr, s_end, out)"
    and made: "k < requests tr" and body: "build_data items aspects = Inr body"
    and b: "conversation_attempt post get elapsed items (job_url s) (api_key s) body s k =
        Some (ev', s'', BodyRaise (HTTPError 429))"
    by simp_all
  from conversation_retried [OF run made body b act] cfg
  show "\<exists>pre post'.
           tr = pre @ ev' @ Sleep (2 * 2 ^ k) # post' \<and>
           requests pre = k \<and>
           (k < 2 \<longrightarrow>
              (\<exists>rest. post' = HttpPost (job_url s) (api_key s) body # rest))"
    by auto
qed

lemma sample_extractive_429:
  "extractive_summarization sample_summarizer always_429 0 ''ab'' 3 ''Rank'' =
     ([BeginAnalyzeActions [''ab''] [ExtractiveSummaryAction 3 ''Rank''], Sleep 2,
       BeginAnalyzeActions [''ab''] [ExtractiveSummaryAction 3 ''Rank''], Sleep 4,
       BeginAnalyzeActions [''ab''] [ExtractiveSummaryAction 3 ''Rank''], Sleep 8],
      sample_summarizer, Inr None)"
  by (simp add: extractive_summarization_def finish_def upt_three extractive_attempt_def
      always_429_def sample_configuration strip_ab)

lemma sample_abstractive_429:
  "abstractive_summarization sample_summarizer always_429 0 ''ab'' ''medium'' =
     ([BeginAnalyzeActions [''ab''] [AbstractiveSummaryAction ''medium''], Sleep 2,
       BeginAnalyzeActions [''ab''] [AbstractiveSummaryAction ''medium''], Sleep 4,
       BeginAnalyzeActions [''ab''] [AbstractiveSummaryAction ''medium''], Sleep 8],
      sample_summarizer, Inr None)"
  by (simp add: abstractive_summarization_def finish_def upt_three abstractive_attempt_def
      always_429_def sample_configuration strip_ab)

lemma sample_attempt_429:
  "conversation_attempt post_429 always_running 0 sample_items (job_url sample_summarizer)
     (api_key sample_summarizer) sample_body sample_summarizer k =
   Some ([HttpPost (job_url sample_summarizer) (api_key sample_summarizer) sample_body],
         sample_summarizer, BodyRaise (HTTPError 429))"
  by (simp add: conversation_attempt_def post_429_def raise_for_status_def)

text \<open>
  The service answers 429 to the first \<open>post\<close>, accepts the job on the second and then
  answers \<open>running\<close> to every \<open>get\<close>: the call never ends; these are its events up to
  the second \<open>get\<close>.
\<close>

lemma sample_poll_steps_running:
  "poll_steps 2 (always_running k) loc key 0 =
     ([HttpGet loc key, Sleep 2, HttpGet loc key, Sleep 2], None)"
  by (simp add: numeral_2_eq_2 always_running_def raise_for_status_def)

lemma sample_attempt_steps_429:
  "conversation_attempt_steps 2 post_429_then_accepted always_running 0 sample_items
     (job_url sample_summarizer) (api_key sample_summarizer) sample_body sample_summarizer 0 =
   ([HttpPost (job_url sample_summarizer) (api_key sample_summarizer) sample_body],
    sample_summarizer, Some (BodyRaise (HTTPError 429)))"
  by (simp add: conversation_attempt_steps_def post_429_then_accepted_def raise_for_status_def)

lemma sample_steps_429_running:
  "conversation_summarization_steps 2 sample_summarizer post_429_then_accepted always_running 0
     sample_items None =
     ([HttpPost (job_url sample_summarizer) ''key'' sample_body, Sleep 2,
       HttpPost (job_url sample_summarizer) ''key'' sample_body,
       HttpGet ''https://example.test/jobs/1'' ''key'', Sleep 2,
       HttpGet ''https://example.test/jobs/1'' ''key'', Sleep 2],
      sample_summarizer, None)"
proof -
  have items: "sample_items \<noteq> []" by (simp add: sample_items_def)
  have key: "api_key sample_summarizer = ''key''" by (simp add: sample_summarizer_def)
  have first: "conversation_attempt_steps 2 post_429_then_accepted always_running 0 sample_items
      (job_url sample_summarizer) ''key'' sample_body sample_summarizer 0 =
      ([HttpPost (job_url sample_summarizer) ''key'' sample_body], sample_summarizer,
       Some (BodyRaise (HTTPError 429)))"
    by (simp add: conversation_attempt_steps_def post_429_then_accepted_def raise_for_status_def)
  have second: "conversation_attempt_steps 2 post_429_then_accepted always_running 0 sample_items
      (job_url sample_summarizer) ''key'' sample_body sample_summarizer (Suc 0) =
      ([HttpPost (job_url sample_summarizer) ''key'' sample_body,
        HttpGet ''https://example.test/jobs/1'' ''key'', Sleep 2,
        HttpGet ''https://example.test/jobs/1'' ''key'', Sleep 2], sample_summarizer, None)"
    by (simp add: conversation_attempt_steps_def post_429_then_accepted_def raise_for_status_def
        sample_poll_steps_running)
  show ?thesis
    by (simp add: conversation_summarization_steps_def items sample_build_data key first second
        upt_three sample_configuration)
qed

theorem rate_limit_sleep_then_retry_witness:
  "max_retries sample_summarizer = 3 \<and> rate_limit_delay sample_summarizer = 2 \<and>
   (0::nat) < requests (fst (extractive_summarization sample_summarizer always_429 0 ''ab'' 3 ''Rank'')) \<and>
   always_429 0 = (SdkRaise (HttpResponseError (Some 429)) :: extract_doc_result sdk_outcome) \<and>
   (\<exists>pre post.
      fst (extractive_summarization sample_summarizer always_429 0 ''ab'' 3 ''Rank'') =
        pre @ BeginAnalyzeActions [''ab''] [ExtractiveSummaryAction 3 ''Rank''] # Sleep (2 * 2 ^ 0) # post \<and>
      requests pre = 0 \<and>
      ((0::nat) < 2 \<longrightarrow>
         (\<exists>rest. post = BeginAnalyzeActions [''ab''] [ExtractiveSummaryAction 3 ''Rank''] # rest))) \<and>
   (\<exists>pre post.
      fst (abstractive_summarization sample_summarizer always_429 0 ''ab'' ''medium'') =
        pre @ BeginAnalyzeActions [''ab''] [AbstractiveSummaryAction ''medium''] # Sleep (2 * 2 ^ 0) # post \<and>
      requests pre = 0 \<and>
      ((0::nat) < 2 \<longrightarrow>
         (\<exists>rest. post = BeginAnalyzeActions [''ab''] [AbstractiveSummaryAction ''medium''] # rest))) \<and>
   (0::nat) < requests (fst (conversation_summarization_steps 2 sample_summarizer post_429_then_accepted
                               always_running 0 sample_items None)) \<and>
   (\<exists>pre post'.
      fst (conversation_summarization_steps 2 sample_summarizer post_429_then_accepted
             always_running 0 sample_items None) =
        pre @ [HttpPost (job_url sample_summarizer) (api_key sample_summarizer) sample_body]
            @ Sleep (2 * 2 ^ 0) # post' \<and>
      requests pre = 0 \<and>
      ((0::nat) < 2 \<longrightarrow>
         (\<exists>rest. post' =
            HttpPost (job_url sample_summarizer) (api_key sample_summarizer) sample_body # rest))) \<and>
   post_429_then_accepted 0 = PostResponse 429 None \<and>
   (\<exists>pre post'.
      fst (conversation_summarization_steps 7 sample_summarizer post_429_then_accepted
             always_running 0 sample_items None) =
        pre @ HttpPost (job_url sample_summarizer) (api_key sample_summarizer) sample_body
            # Sleep (2 * 2 ^ 0) # post' \<and>
      requests pre = 0 \<and>
      ((0::nat) < 2 \<longrightarrow>
         (\<exists>rest. post' =
            HttpPost (job_url sample_summarizer) (api_key sample_summarizer) sample_body # rest))) \<and>
   conversation_summarization sample_summarizer post_429 always_running 0 sample_items None =
     Some ([HttpPost (job_url sample_summarizer) ''key'' sample_body, Sleep 2,
            HttpPost (job_url sample_summarizer) ''key'' sample_body, Sleep 4,
            HttpPost (job_url sample_summarizer) ''key'' sample_body, Sleep 8],
           sample_summarizer, Inr None) \<and>
   (\<exists>pre post'.
      [HttpPost (job_url sample_summarizer) ''key'' sample_body, Sleep 2,
       HttpPost (job_url sample_summarizer) ''key'' sample_body, Sleep 4,
       HttpPost (job_url sample_summarizer) ''key'' sample_body, Sleep 8] =
        pre @ [HttpPost (job_url sample_summarizer) (api_key sample_summarizer) sample_body]
            @ Sleep (2 * 2 ^ 0) # post' \<and>
      requests pre = 0 \<and>
      ((0::nat) < 2 \<longrightarrow>
         (\<exists>rest. post' =
            HttpPost (job_url sample_summarizer) (api_key sample_summarizer) sample_body # rest)))"
proof -
  have cfg: "max_retries sample_summarizer = 3 \<and> rate_limit_delay sample_summarizer = 2"
    by (simp add: sample_configuration)
  have made: "(0::nat) < requests (fst (extractive_summarization sample_summarizer always_429 0 ''ab'' 3 ''Rank''))"
    by (simp add: sample_extractive_429)
  have made': "(0::nat) < requests (fst (abstractive_summarization sample_summarizer always_429 0 ''ab'' ''medium''))"
    by (simp add: sample_abstractive_429)
  have c: "always_429 0 = (SdkRaise (HttpResponseError (Some 429)) :: extract_doc_result sdk_outcome)"
    by (simp add: always_429_def)
  have c': "always_429 0 = (SdkRaise (HttpResponseError (Some 429)) :: abstract_doc_result sdk_outcome)"
    by (simp add: always_429_def)
  have made_steps: "(0::nat) < requests (fst (conversation_summarization_steps 2 sample_summarizer
      post_429_then_accepted always_running 0 sample_items None))"
    by (simp add: sample_steps_429_running)
  have first: "post_429_then_accepted 0 = PostResponse 429 None"
    by (simp add: post_429_then_accepted_def)
  then have limited: "\<forall>j\<le>0. \<exists>loc. post_429_then_accepted j = PostResponse 429 loc" by simp
  have three: "(0::nat) < 3" by simp
  have items: "sample_items \<noteq> []" by (simp add: sample_items_def)
  have made'': "(0::nat) < requests
      [HttpPost (job_url sample_summarizer) ''key'' sample_body, Sleep 2,
       HttpPost (job_url sample_summarizer) ''key'' sample_body, Sleep 4,
       HttpPost (job_url sample_summarizer) ''key'' sample_body, Sleep 8]"
    by simp
  note e = rate_limit_sleep_then_retry [OF cfg, THEN conjunct1, rule_format, OF conjI [OF made c]]
  note a = rate_limit_sleep_then_retry [OF cfg, THEN conjunct2, THEN conjunct1, rule_format,
      OF conjI [OF made' c']]
  note r = rate_limit_sleep_then_retry [OF cfg, THEN conjunct2, THEN conjunct2, THEN conjunct1,
      rule_format, OF conjI [OF made_steps conjI [OF sample_build_data sample_attempt_steps_429]]]
  note w = rate_limit_sleep_then_retry [OF cfg, THEN conjunct2, THEN conjunct2, THEN conjunct2,
      THEN conjunct1, THEN mp, OF conjI [OF three conjI [OF items conjI [OF sample_build_data limited]]]]
  note v = rate_limit_sleep_then_retry [OF cfg, THEN conjunct2, THEN conjunct2, THEN conjunct2,
      THEN conjunct2, rule_format,
      OF conjI [OF sample_conversation_429 conjI [OF made'' conjI [OF sample_build_data sample_attempt_429]]]]
  show ?thesis
    by (intro conjI cfg [THEN conjunct1] cfg [THEN conjunct2] made c e a made_steps r first w
        sample_conversation_429 v)
qed

text \<open>
  On the last attempt the claim fails: when all three attempts of
  \<open>extractive_summarization\<close> fail with the status 429, the third one is followed by a
  sleep of 8 seconds, and that sleep is the last event. No request follows it.
\<close>

theorem rate_limit_last_attempt_counterexample:
  "always_429 2 = (SdkRaise (HttpResponseError (Some 429)) :: extract_doc_result sdk_outcome) \<and>
   fst (extractive_summarization sample_summarizer always_429 0 ''ab'' 3 ''Rank'') =
     [BeginAnalyzeActions [''ab''] [ExtractiveSummaryAction 3 ''Rank''], Sleep 2,
      BeginAnalyzeActions [''ab''] [ExtractiveSummaryAction 3 ''Rank''], Sleep 4,
      BeginAnalyzeActions [''ab''] [ExtractiveSummaryAction 3 ''Rank''], Sleep 8] \<and>
   requests (fst (extractive_summarization sample_summarizer always_429 0 ''ab'' 3 ''Rank'')) = 3 \<and>
   last (fst (extractive_summarization sample_summarizer always_429 0 ''ab'' 3 ''Rank'')) = Sleep 8"
  by (simp add: sample_extractive_429 always_429_def)

section \<open>The number of attempts and the end of the loop\<close>

lemma retry_loop_length_le:
  assumes one: "\<forall>s k. length (fst (body s k)) = 1"
  shows "length (fst (retry_loop h body s as)) \<le> 2 * length as"
proof (induction as arbitrary: s)
  case Nil
  show ?case by simp
next
  case (Cons a rest)
  obtain ev s' b where b: "body s a = (ev, s', b)" by (cases "body s a") auto
  with one have ev: "length ev = 1" by (metis fst_conv)
  have "length (fst (retry_loop h body s' rest)) \<le> 2 * length rest" by (rule Cons.IH)
  with b ev show ?case
    by (auto split: body_outcome.splits handler_action.splits prod.splits)
qed

lemma extractive_bounded:
  "requests (fst (extractive_summarization s client elapsed text sentence_count sort_by)) \<le> max_retries s \<and>
   length (fst (extractive_summarization s client elapsed text sentence_count sort_by)) \<le> 2 * max_retries s"
proof (cases "fst (extractive_summarization s client elapsed text sentence_count sort_by) = []")
  case True
  then show ?thesis by simp
next
  case False
  let ?body = "extractive_attempt client elapsed text (ExtractiveSummaryAction sentence_count sort_by)"
  let ?loop = "retry_loop sdk_handler ?body s [0 ..< max_retries s]"
  from False have eq: "extractive_summarization s client elapsed text sentence_count sort_by =
      finish (length text) elapsed ?loop"
    by (rule extractive_events)
  have "requests (fst ?loop) \<le> length [0 ..< max_retries s]"
    using extractive_attempt_events by (rule retry_loop_requests_le)
  moreover have "length (fst ?loop) \<le> 2 * length [0 ..< max_retries s]"
    by (rule retry_loop_length_le) (simp add: extractive_attempt_fst)
  ultimately show ?thesis by (simp add: eq)
qed

lemma abstractive_bounded:
  "requests (fst (abstractive_summarization s client elapsed text summary_length)) \<le> max_retries s \<and>
   length (fst (abstractive_summarization s client elapsed text summary_length)) \<le> 2 * max_retries s"
proof (cases "fst (abstractive_summarization s client elapsed text summary_length) = []")
  case True
  then show ?thesis by simp
next
  case False
  let ?body = "abstractive_attempt client elapsed text (AbstractiveSummaryAction summary_length)"
  let ?loop = "retry_loop sdk_handler ?body s [0 ..< max_retries s]"
  from False have eq: "abstractive_summarization s client elapsed text summary_length =
      finish (length text) elapsed ?loop"
    by (rule abstractive_events)
  have "requests (fst ?loop) \<le> length [0 ..< max_retries s]"
    using abstractive_attempt_events by (rule retry_loop_requests_le)
  moreover have "length (fst ?loop) \<le> 2 * length [0 ..< max_retries s]"
    by (rule retry_loop_length_le) (simp add: abstractive_attempt_fst)
  ultimately show ?thesis by (simp add: eq)
qed

text \<open>
  The job is accepted and its status is \<open>running\<close> on every \<open>get\<close>: the events of the call
  up to the second \<open>get\<close>. There is one \<open>post\<close>.
\<close>

lemma sample_steps_running:
  "conversation_summarization_steps 2 sample_summarizer post_accepted always_running 0
     sample_items None =
     ([HttpPost (job_url sample_summarizer) ''key'' sample_body,
       HttpGet ''https://example.test/jobs/1'' ''key'', Sleep 2,
       HttpGet ''https://example.test/jobs/1'' ''key'', Sleep 2],
      sample_summarizer, None)"
proof -
  have items: "sample_items \<noteq> []" by (simp add: sample_items_def)
  have key: "api_key sample_summarizer = ''key''" by (simp add: sample_summarizer_def)
  have first: "conversation_attempt_steps 2 post_accepted always_running 0 sample_items
      (job_url sample_summarizer) ''key'' sample_body sample_summarizer 0 =
      ([HttpPost (job_url sample_summarizer) ''key'' sample_body,
        HttpGet ''https://example.test/jobs/1'' ''key'', Sleep 2,
        HttpGet ''https://example.test/jobs/1'' ''key'', Sleep 2], sample_summarizer, None)"
    by (simp add: conversation_attempt_steps_def post_accepted_def raise_for_status_def
        sample_poll_steps_running)
  show ?thesis
    by (simp add: conversation_summarization_steps_def items sample_build_data key first
        upt_three sample_configuration)
qed

text \<open>
  C2, as the code has it. With \<open>max_retries = 3\<close>, \<open>extractive_summarization\<close> and
  \<open>abstractive_summarization\<close> make at most three requests and their run is at most six
  events long, three requests and three sleeps: the loop always ends, by a return, an
  exception or its own end. \<open>conversation_summarization\<close> submits the job at most three
  times on every input, whether the call ends or not: there are at most three \<open>post\<close>s
  among its events after any number of steps of the polling, and among the events of a
  call that ends. The call ends when on each attempt some answer to the polling ends the
  polling loop.
\<close>

theorem attempts_bounded:
  assumes cfg: "max_retries s = 3"
  shows
    "requests (fst (extractive_summarization s client elapsed text sentence_count sort_by)) \<le> 3 \<and>
     length (fst (extractive_summarization s client elapsed text sentence_count sort_by)) \<le> 6 \<and>
     requests (fst (abstractive_summarization s client' elapsed text summary_length)) \<le> 3 \<and>
     length (fst (abstractive_summarization s client' elapsed text summary_length)) \<le> 6 \<and>
     requests (fst (conversation_summarization_steps fuel s post get elapsed items aspects)) \<le> 3 \<and>
     (conversation_summarization s post get elapsed items aspects = Some (tr, s_end, out) \<longrightarrow>
        requests tr \<le> 3) \<and>
     ((\<forall>k<3. \<exists>j. ends_poll (get k j)) \<longrightarrow>
        conversation_summarization s post get elapsed items aspects \<noteq> None)"
proof (intro conjI impI)
  from extractive_bounded [of s client elapsed "text" sentence_count sort_by] cfg
  show "requests (fst (extractive_summarization s client elapsed text sentence_count sort_by)) \<le> 3"
    and "length (fst (extractive_summarization s client elapsed text sentence_count sort_by)) \<le> 6"
    by simp_all
  from abstractive_bounded [of s client' elapsed "text" summary_length] cfg
  show "requests (fst (abstractive_summarization s client' elapsed text summary_length)) \<le> 3"
    and "length (fst (abstractive_summarization s client' elapsed text summary_length)) \<le> 6"
    by simp_all
  from conversation_steps_requests_le [of fuel s post get elapsed items aspects] cfg
  show "requests (fst (conversation_summarization_steps fuel s post get elapsed items aspects)) \<le> 3"
    by simp
next
  assume "conversation_summarization s post get elapsed items aspects = Some (tr, s_end, out)"
  from conversation_requests_le [OF this] cfg show "requests tr \<le> 3" by simp
next
  assume "\<forall>k<3. \<exists>j. ends_poll (get k j)"
  with cfg have "\<forall>k<max_retries s. \<exists>j. ends_poll (get k j)" by simp
  then show "conversation_summarization s post get elapsed items aspects \<noteq> None"
    by (rule conversation_ends)
qed

theorem attempts_bounded_witness:
  "max_retries sample_summarizer = 3 \<and>
   requests (fst (extractive_summarization sample_summarizer always_429 0 ''ab'' 3 ''Rank'')) \<le> 3 \<and>
   requests (fst (conversation_summarization_steps 2 sample_summarizer post_accepted always_running 0
                    sample_items None)) \<le> 3 \<and>
   conversation_summarization sample_summarizer post_429 always_running 0 sample_items None =
     Some ([HttpPost (job_url sample_summarizer) ''key'' sample_body, Sleep 2,
            HttpPost (job_url sample_summarizer) ''key'' sample_body, Sleep 4,
            HttpPost (job_url sample_summarizer) ''key'' sample_body, Sleep 8],
           sample_summarizer, Inr None) \<and>
   requests [HttpPost (job_url sample_summarizer) ''key'' sample_body, Sleep 2,
             HttpPost (job_url sample_summarizer) ''key'' sample_body, Sleep 4,
             HttpPost (job_url sample_summarizer) ''key'' sample_body, Sleep 8] \<le> 3 \<and>
   ends_poll (get_succeeded 0 0) \<and> ends_poll (get_succeeded 1 0) \<and> ends_poll (get_succeeded 2 0) \<and>
   conversation_summarization sample_summarizer post_accepted get_succeeded 0 sample_items None \<noteq> None"
proof -
  have cfg: "max_retries sample_summarizer = 3" by (simp add: sample_configuration)
  have ends: "ends_poll (get_succeeded k 0)" for k by (simp add: get_succeeded_def)
  then have all: "\<forall>k<3. \<exists>j. ends_poll (get_succeeded k j)" by blast
  note e = attempts_bounded [OF cfg, THEN conjunct1]
  note r = attempts_bounded [OF cfg, THEN conjunct2, THEN conjunct2, THEN conjunct2, THEN conjunct2,
      THEN conjunct1]
  note v = attempts_bounded [OF cfg, THEN conjunct2, THEN conjunct2, THEN conjunct2, THEN conjunct2,
      THEN conjunct2, THEN conjunct1, rule_format, OF sample_conversation_429]
  note t = attempts_bounded [OF cfg, THEN conjunct2, THEN conjunct2, THEN conjunct2, THEN conjunct2,
      THEN conjunct2, THEN conjunct2, THEN mp, OF all]
  show ?thesis
    by (intro conjI cfg e r sample_conversation_429 v ends t)
qed

text \<open>
  The polling loop has no bound: when the job is accepted and its status is \<open>running\<close>
  on every \<open>get\<close>, \<open>conversation_summarization\<close> never ends.
\<close>

theorem conversation_polling_counterexample:
  "conversation_summarization sample_summarizer post_accepted always_running 0 sample_items None = None"
proof -
  have "\<forall>j. \<not> ends_poll (always_running 0 j)"
    by (simp add: always_running_def raise_for_status_def)
  then have "poll (always_running 0) ''https://example.test/jobs/1'' (api_key sample_summarizer) 0 = None"
    by (rule poll_never_ends)
  then have "conversation_attempt post_accepted always_running 0 sample_items
      (job_url sample_summarizer) (api_key sample_summarizer) sample_body sample_summarizer 0 = None"
    by (simp add: conversation_attempt_def post_accepted_def raise_for_status_def)
  moreover have "sample_items \<noteq> []" by (simp add: sample_items_def)
  ultimately show ?thesis
    by (simp add: conversation_summarization_def sample_build_data upt_three sample_configuration)
qed

section \<open>Batch summarization\<close>

lemma same_config_refl [simp]: "same_config s s"
  by (simp add: same_config_def)

lemma same_config_update_stats [simp]: "same_config (update_stats s n t ok) s"
  by (simp add: same_config_def update_stats_def Let_def)

lemma same_config_trans: "same_config a b \<Longrightarrow> same_config b c \<Longrightarrow> same_config a c"
  by (simp add: same_config_def)

lemma same_config_sym: "same_config a b \<Longrightarrow> same_config b a"
  by (simp add: same_config_def)

lemma sdk_handler_config: "same_config s1 s2 \<Longrightarrow> sdk_handler s1 k e = sdk_handler s2 k e"
  by (cases e) (simp_all add: same_config_def)

text \<open>
  The events and the outcome of the retry loop depend on the configuration only, when
  those of the \<open>try\<close> block do not depend on the summarizer at all.
\<close>

lemma retry_loop_config:
  assumes indep: "\<forall>s1 s2 k. fst (body s1 k) = fst (body s2 k) \<and> snd (snd (body s1 k)) = snd (snd (body s2 k))"
    and keep: "\<forall>s k. same_config (fst (snd (body s k))) s"
    and handler: "\<forall>s1 s2 k e. same_config s1 s2 \<longrightarrow> h s1 k e = h s2 k e"
  shows "same_config s1 s2 \<Longrightarrow>
         fst (retry_loop h body s1 as) = fst (retry_loop h body s2 as) \<and>
         snd (snd (retry_loop h body s1 as)) = snd (snd (retry_loop h body s2 as)) \<and>
         same_config (fst (snd (retry_loop h body s1 as))) s1"
proof (induction as arbitrary: s1 s2)
  case Nil
  then show ?case by simp
next
  case (Cons a rest)
  obtain ev t1 b where b1: "body s1 a = (ev, t1, b)" by (cases "body s1 a") auto
  obtain ev' t2 b' where b2: "body s2 a = (ev', t2, b')" by (cases "body s2 a") auto
  from indep b1 b2 have eq: "ev' = ev" "b' = b" by (metis fst_conv snd_conv)+
  from keep b1 have k1: "same_config t1 s1" by (metis fst_conv snd_conv)
  from keep b2 have k2: "same_config t2 s2" by (metis fst_conv snd_conv)
  from k1 Cons.prems k2 have t: "same_config t1 t2"
    by (blast intro: same_config_trans same_config_sym)
  show ?case
  proof (cases b)
    case (BodyReturn r)
    with b1 b2 eq k1 show ?thesis by simp
  next
    case BodyBreak
    with b1 b2 eq k1 show ?thesis by simp
  next
    case (BodyRaise e)
    from handler t have h: "h t2 a e = h t1 a e" by simp
    show ?thesis
    proof (cases "h t1 a e")
      case Reraise
      with b1 b2 eq k1 h BodyRaise show ?thesis by simp
    next
      case (SleepAndContinue d)
      from Cons.IH [OF t] have ih:
        "fst (retry_loop h body t1 rest) = fst (retry_loop h body t2 rest)"
        "snd (snd (retry_loop h body t1 rest)) = snd (snd (retry_loop h body t2 rest))"
        "same_config (fst (snd (retry_loop h body t1 rest))) t1"
        by simp_all
      from ih(3) k1 have "same_config (fst (snd (retry_loop h body t1 rest))) s1"
        by (rule same_config_trans)
      with b1 b2 eq h BodyRaise SleepAndContinue ih show ?thesis
        by (auto split: prod.splits)
    qed
  qed
qed

lemma extract_results_config:
  "snd (extract_results s1 elapsed text result) = snd (extract_results s2 elapsed text result) \<and>
   same_config (fst (extract_results s1 elapsed text result)) s1"
  by (induction s1 elapsed "text" result arbitrary: s2 rule: extract_results.induct) simp_all

lemma abstract_results_config:
  "snd (abstract_results s1 elapsed text result) = snd (abstract_results s2 elapsed text result) \<and>
   same_config (fst (abstract_results s1 elapsed text result)) s1"
  by (induction s1 elapsed "text" result arbitrary: s2 rule: abstract_results.induct) simp_all

lemma extractive_attempt_config:
  "\<forall>s1 s2 k. fst (extractive_attempt client elapsed text action s1 k) =
               fst (extractive_attempt client elapsed text action s2 k) \<and>
             snd (snd (extractive_attempt client elapsed text action s1 k)) =
               snd (snd (extractive_attempt client elapsed text action s2 k))"
proof (intro allI)
  fix s1 s2 k
  show "fst (extractive_attempt client elapsed text action s1 k) =
               fst (extractive_attempt client elapsed text action s2 k) \<and>
             snd (snd (extractive_attempt client elapsed text action s1 k)) =
               snd (snd (extractive_attempt client elapsed text action s2 k))"
  proof (cases "client k")
    case (SdkRaise e)
    then show ?thesis by (simp add: extractive_attempt_def)
  next
    case (SdkResult result)
    obtain t1 b1 where r1: "extract_results s1 elapsed text result = (t1, b1)"
      by (cases "extract_results s1 elapsed text result") auto
    obtain t2 b2 where r2: "extract_results s2 elapsed text result = (t2, b2)"
      by (cases "extract_results s2 elapsed text result") auto
    from extract_results_config [of s1 elapsed "text" result s2] r1 r2 have "b1 = b2" by simp
    with SdkResult r1 r2 show ?thesis by (simp add: extractive_attempt_def)
  qed
qed

lemma extractive_attempt_keeps_config:
  "\<forall>s k. same_config (fst (snd (extractive_attempt client elapsed text action s k))) s"
proof (intro allI)
  fix s k
  show "same_config (fst (snd (extractive_attempt client elapsed text action s k))) s"
  proof (cases "client k")
    case (SdkRaise e)
    then show ?thesis by (simp add: extractive_attempt_def)
  next
    case (SdkResult result)
    obtain t1 b1 where r1: "extract_results s elapsed text result = (t1, b1)"
      by (cases "extract_results s elapsed text result") auto
    from extract_results_config [of s elapsed "text" result s] r1 have "same_config t1 s" by simp
    with SdkResult r1 show ?thesis by (simp add: extractive_attempt_def)
  qed
qed

lemma finish_config:
  assumes "fst res1 = fst res2" "snd (snd res1) = snd (snd res2)"
    "same_config (fst (snd res1)) s"
  shows "fst (finish n elapsed res1) = fst (finish n elapsed res2) \<and>
         snd (snd (finish n elapsed res1)) = snd (snd (finish n elapsed res2)) \<and>
         same_config (fst (snd (finish n elapsed res1))) s"
proof -
  obtain tr1 t1 o1 where r1: "res1 = (tr1, t1, o1)" by (cases res1) auto
  obtain tr2 t2 o2 where r2: "res2 = (tr2, t2, o2)" by (cases res2) auto
  from assms r1 r2 have eq: "tr2 = tr1" "o2 = o1" and c: "same_config t1 s" by simp_all
  have "same_config (update_stats t1 n elapsed False) s"
    using same_config_update_stats c by (rule same_config_trans)
  with r1 r2 eq c show ?thesis
    by (cases o1) (simp_all add: finish_def)
qed

lemma extractive_summarization_config:
  assumes c: "same_config s1 s2"
  shows "fst (extractive_summarization s1 client elapsed text sentence_count sort_by) =
           fst (extractive_summarization s2 client elapsed text sentence_count sort_by) \<and>
         snd (snd (extractive_summarization s1 client elapsed text sentence_count sort_by)) =
           snd (snd (extractive_summarization s2 client elapsed text sentence_count sort_by)) \<and>
         same_config (fst (snd (extractive_summarization s1 client elapsed text sentence_count sort_by))) s1"
proof -
  let ?body = "extractive_attempt client elapsed text (ExtractiveSummaryAction sentence_count sort_by)"
  have h: "\<forall>s1 s2 k e. same_config s1 s2 \<longrightarrow> sdk_handler s1 k e = sdk_handler s2 k e"
    by (simp add: sdk_handler_config)
  from c have n: "max_retries s2 = max_retries s1" by (simp add: same_config_def)
  from retry_loop_config [OF extractive_attempt_config extractive_attempt_keeps_config h c,
      where as = "[0 ..< max_retries s1]"]
  have loop: "fst (retry_loop sdk_handler ?body s1 [0 ..< max_retries s1]) =
        fst (retry_loop sdk_handler ?body s2 [0 ..< max_retries s1])"
    "snd (snd (retry_loop sdk_handler ?body s1 [0 ..< max_retries s1])) =
        snd (snd (retry_loop sdk_handler ?body s2 [0 ..< max_retries s1]))"
    "same_config (fst (snd (retry_loop sdk_handler ?body s1 [0 ..< max_retries s1]))) s1"
    by simp_all
  let ?r1 = "if text = [] \<or> length (strip text) = 0
          then ([], s1, LoopRaise (ValueError ''Input text cannot be empty''))
        else if \<not> (1 \<le> sentence_count \<and> sentence_count \<le> 20)
          then ([], s1, LoopRaise (ValueError ''Sentence count must be between 1 and 20''))
        else retry_loop sdk_handler ?body s1 [0 ..< max_retries s1]"
  let ?r2 = "if text = [] \<or> length (strip text) = 0
          then ([], s2, LoopRaise (ValueError ''Input text cannot be empty''))
        else if \<not> (1 \<le> sentence_count \<and> sentence_count \<le> 20)
          then ([], s2, LoopRaise (ValueError ''Sentence count must be between 1 and 20''))
        else retry_loop sdk_handler ?body s2 [0 ..< max_retries s1]"
  have "fst ?r1 = fst ?r2" "snd (snd ?r1) = snd (snd ?r2)" "same_config (fst (snd ?r1)) s1"
    using loop by simp_all
  then have "fst (finish (length text) elapsed ?r1) = fst (finish (length text) elapsed ?r2) \<and>
         snd (snd (finish (length text) elapsed ?r1)) = snd (snd (finish (length text) elapsed ?r2)) \<and>
         same_config (fst (snd (finish (length text) elapsed ?r1))) s1"
    by (rule finish_config)
  then show ?thesis
    unfolding extractive_summarization_def n .
qed

lemma abstractive_attempt_config:
  "\<forall>s1 s2 k. fst (abstractive_attempt client elapsed text action s1 k) =
               fst (abstractive_attempt client elapsed text action s2 k) \<and>
             snd (snd (abstractive_attempt client elapsed text action s1 k)) =
               snd (snd (abstractive_attempt client elapsed text action s2 k))"
proof (intro allI)
  fix s1 s2 k
  show "fst (abstractive_attempt client elapsed text action s1 k) =
               fst (abstractive_attempt client elapsed text action s2 k) \<and>
             snd (snd (abstractive_attempt client elapsed text action s1 k)) =
               snd (snd (abstractive_attempt client elapsed text action s2 k))"
  proof (cases "client k")
    case (SdkRaise e)
    then show ?thesis by (simp add: abstractive_attempt_def)
  next
    case (SdkResult result)
    obtain t1 b1 where r1: "abstract_results s1 elapsed text result = (t1, b1)"
      by (cases "abstract_results s1 elapsed text result") auto
    obtain t2 b2 where r2: "abstract_results s2 elapsed text result = (t2, b2)"
      by (cases "abstract_results s2 elapsed text result") auto
    from abstract_results_config [of s1 elapsed "text" result s2] r1 r2 have "b1 = b2" by simp
    with SdkResult r1 r2 show ?thesis by (simp add: abstractive_attempt_def)
  qed
qed

lemma abstractive_attempt_keeps_config:
  "\<forall>s k. same_config (fst (snd (abstractive_attempt client elapsed text action s k))) s"
proof (intro allI)
  fix s k
  show "same_config (fst (snd (abstractive_attempt client elapsed text action s k))) s"
  proof (cases "client k")
    case (SdkRaise e)
    then show ?thesis by (simp add: abstractive_attempt_def)
  next
    case (SdkResult result)
    obtain t1 b1 where r1: "abstract_results s elapsed text result = (t1, b1)"
      by (cases "abstract_results s elapsed text result") auto
    from abstract_results_config [of s elapsed "text" result s] r1 have "same_config t1 s" by simp
    with SdkResult r1 show ?thesis by (simp add: abstractive_attempt_def)
  qed
qed

lemma abstractive_summarization_config:
  assumes c: "same_config s1 s2"
  shows "fst (abstractive_summarization s1 client elapsed text summary_length) =
           fst (abstractive_summarization s2 client elapsed text summary_length) \<and>
         snd (snd (abstractive_summarization s1 client elapsed text summary_length)) =
           snd (snd (abstractive_summarization s2 client elapsed text summary_length)) \<and>
         same_config (fst (snd (abstractive_summarization s1 client elapsed text summary_length))) s1"
proof -
  let ?body = "abstractive_attempt client elapsed text (AbstractiveSummaryAction summary_length)"
  have h: "\<forall>s1 s2 k e. same_config s1 s2 \<longrightarrow> sdk_handler s1 k e = sdk_handler s2 k e"
    by (simp add: sdk_handler_config)
  from c have n: "max_retries s2 = max_retries s1" by (simp add: same_config_def)
  from retry_loop_config [OF abstractive_attempt_config abstractive_attempt_keeps_config h c,
      where as = "[0 ..< max_retries s1]"]
  have loop: "fst (retry_loop sdk_handler ?body s1 [0 ..< max_retries s1]) =
        fst (retry_loop sdk_handler ?body s2 [0 ..< max_retries s1])"
    "snd (snd (retry_loop sdk_handler ?body s1 [0 ..< max_retries s1])) =
        snd (snd (retry_loop sdk_handler ?body s2 [0 ..< max_retries s1]))"
    "same_config (fst (snd (retry_loop sdk_handler ?body s1 [0 ..< max_retries s1]))) s1"
    by simp_all
  let ?r1 = "if text = [] \<or> length (strip text) = 0
          then ([], s1, LoopRaise (ValueError ''Input text cannot be empty''))
        else if summary_length \<notin> set [''short'', ''medium'', ''long'']
          then ([], s1, LoopRaise (ValueError ''Summary length must be 'short', 'medium', or 'long' ''))
        else retry_loop sdk_handler ?body s1 [0 ..< max_retries s1]"
  let ?r2 = "if text = [] \<or> length (strip text) = 0
          then ([], s2, LoopRaise (ValueError ''Input text cannot be empty''))
        else if summary_length \<notin> set [''short'', ''medium'', ''long'']
          then ([], s2, LoopRaise (ValueError ''Summary length must be 'short', 'medium', or 'long' ''))
        else retry_loop sdk_handler ?body s2 [0 ..< max_retries s1]"
  have "fst ?r1 = fst ?r2" "snd (snd ?r1) = snd (snd ?r2)" "same_config (fst (snd ?r1)) s1"
    using loop by auto
  then have "fst (finish (length text) elapsed ?r1) = fst (finish (length text) elapsed ?r2) \<and>
         snd (snd (finish (length text) elapsed ?r1)) = snd (snd (finish (length text) elapsed ?r2)) \<and>
         same_config (fst (snd (finish (length text) elapsed ?r1))) s1"
    by (rule finish_config)
  then show ?thesis
    unfolding abstractive_summarization_def n .
qed

lemma process_document_config:
  assumes c: "same_config s1 s2"
  shows "snd (snd (process_document s1 ext_client abs_client elapsed summarization_type kw doc)) =
           snd (snd (process_document s2 ext_client abs_client elapsed summarization_type kw doc)) \<and>
         same_config (fst (snd (process_document s1 ext_client abs_client elapsed summarization_type kw doc))) s1"
proof -
  let ?e = "\<lambda>s. call_extractive s ext_client elapsed doc kw"
  let ?a = "\<lambda>s. call_abstractive s abs_client elapsed doc kw"
  have e: "snd (snd (?e s1)) = snd (snd (?e s2)) \<and> same_config (fst (snd (?e s1))) s1"
    using extractive_summarization_config [OF c] by (simp add: call_extractive_def)
  have a: "snd (snd (?a s1)) = snd (snd (?a s2)) \<and> same_config (fst (snd (?a s1))) s1"
    using abstractive_summarization_config [OF c] by (simp add: call_abstractive_def)
  show ?thesis
  proof (cases "summarization_type = ''extractive''")
    case True
    obtain tr1 t1 o1 where r1: "?e s1 = (tr1, t1, o1)" by (cases "?e s1") auto
    obtain tr2 t2 o2 where r2: "?e s2 = (tr2, t2, o2)" by (cases "?e s2") auto
    from e r1 r2 have "o2 = o1" "same_config t1 s1" by simp_all
    with True r1 r2 show ?thesis by (cases o1) (simp_all add: process_document_def)
  next
    case False
    obtain tr1 t1 o1 where r1: "?a s1 = (tr1, t1, o1)" by (cases "?a s1") auto
    obtain tr2 t2 o2 where r2: "?a s2 = (tr2, t2, o2)" by (cases "?a s2") auto
    from a r1 r2 have "o2 = o1" "same_config t1 s1" by simp_all
    with False r1 r2 show ?thesis by (cases o1) (simp_all add: process_document_def)
  qed
qed

text \<open>
  The results that \<open>gather\<close> collects are, in order, the results of the documents, each
  as \<open>process_document\<close> gives it on the summarizer of the start of the batch.
\<close>

lemma gather_results:
  "same_config s s0 \<Longrightarrow>
   snd (snd (gather s ext_client abs_client elapsed summarization_type kw n docs)) =
     map (\<lambda>i. snd (snd (process_document s0 (ext_client (n + i)) (abs_client (n + i)) (elapsed (n + i))
                            summarization_type kw (docs ! i))))
         [0 ..< length docs]"
proof (induction docs arbitrary: s n)
  case Nil
  show ?case by simp
next
  case (Cons doc docs)
  obtain tr s' r where p: "process_document s (ext_client n) (abs_client n) (elapsed n)
      summarization_type kw doc = (tr, s', r)"
    by (cases "process_document s (ext_client n) (abs_client n) (elapsed n) summarization_type kw doc") auto
  from process_document_config [OF Cons.prems, of "ext_client n" "abs_client n" "elapsed n"
      summarization_type kw doc] p
  have r: "r = snd (snd (process_document s0 (ext_client n) (abs_client n) (elapsed n)
      summarization_type kw doc))" and c: "same_config s' s" by simp_all
  from c Cons.prems have "same_config s' s0" by (rule same_config_trans)
  from Cons.IH [OF this, of "n + 1"] have ih:
    "snd (snd (gather s' ext_client abs_client elapsed summarization_type kw (n + 1) docs)) =
     map (\<lambda>i. snd (snd (process_document s0 (ext_client (n + 1 + i)) (abs_client (n + 1 + i))
                            (elapsed (n + 1 + i)) summarization_type kw (docs ! i))))
         [0 ..< length docs]" .
  have shift: "[0 ..< length (doc # docs)] = 0 # map Suc [0 ..< length docs]"
    by (simp add: upt_conv_Cons map_Suc_upt del: upt_Suc)
  show ?case
    unfolding shift using p r ih
    by (auto simp: comp_def split: prod.splits)
qed

text \<open>
  C7. \<open>batch_summarization\<close> returns the results of the documents that are a
  \<open>SummaryResult\<close>, in the order of the documents, and nothing else: the documents whose
  summarization raised or gave \<open>None\<close> are left out. So the list returned is never longer
  than the list of documents. The result of a document is that of its summarization, and
  \<open>None\<close> when the summarization raised.
\<close>

theorem batch_returns_successes:
  "map Some (snd (snd (batch_summarization s ext_client abs_client elapsed documents summarization_type kw))) =
     filter (\<lambda>r. r \<noteq> None)
       (map (\<lambda>i. snd (snd (process_document s (ext_client i) (abs_client i) (elapsed i)
                              summarization_type kw (documents ! i))))
            [0 ..< length documents]) \<and>
   length (snd (snd (batch_summarization s ext_client abs_client elapsed documents summarization_type kw)))
     \<le> length documents \<and>
   snd (snd (process_document s e a t summarization_type kw doc)) =
     (case snd (snd (if summarization_type = ''extractive''
                     then call_extractive s e t doc kw
                     else call_abstractive s a t doc kw)) of
        Inl err \<Rightarrow> None
      | Inr r \<Rightarrow> r)"
proof -
  have one: "snd (snd (process_document s e a t summarization_type kw doc)) =
     (case snd (snd (if summarization_type = ''extractive''
                     then call_extractive s e t doc kw
                     else call_abstractive s a t doc kw)) of
        Inl err \<Rightarrow> None
      | Inr r \<Rightarrow> r)"
    by (simp add: process_document_def split: prod.splits sum.splits)
  let ?rs = "snd (snd (gather s ext_client abs_client elapsed summarization_type kw 0 documents))"
  have ret: "snd (snd (batch_summarization s ext_client abs_client elapsed documents summarization_type kw)) =
      map the (filter (\<lambda>r. r \<noteq> None) ?rs)"
    by (simp add: batch_summarization_def split: prod.splits)
  have rs: "?rs = map (\<lambda>i. snd (snd (process_document s (ext_client i) (abs_client i) (elapsed i)
                              summarization_type kw (documents ! i))))
            [0 ..< length documents]"
    using gather_results [of s s ext_client abs_client elapsed summarization_type kw 0 documents]
    by simp
  have some: "map Some (map the (filter (\<lambda>r. r \<noteq> None) xs)) = filter (\<lambda>r. r \<noteq> None) xs"
    for xs :: "summary_result option list"
    by (induction xs) auto
  have "length (map the (filter (\<lambda>r. r \<noteq> None) ?rs)) \<le> length ?rs" by simp
  also have "length ?rs = length documents" by (simp add: rs)
  finally have len: "length (map the (filter (\<lambda>r. r \<noteq> None) ?rs)) \<le> length documents" .
  from len one show ?thesis unfolding ret some rs [symmetric] by simp
qed

text \<open>
  A batch of three documents of which the second is blank: two results come back, those
  of the first and of the third document.
\<close>

lemma sample_batch:
  "map character_count
     (snd (snd (batch_summarization sample_summarizer one_sentence every_document_429 clock_zero
                  [''ab'', ''  '', ''cde''] ''extractive'' no_kwargs))) =
     [length ''ab'', length ''cde'']"
proof -
  have cfg: "max_retries (update_stats s n t ok) = max_retries s"
    "retry_delay (update_stats s n t ok) = retry_delay s"
    "rate_limit_delay (update_stats s n t ok) = rate_limit_delay s" for s n t ok
    by (simp_all add: update_stats_def Let_def)
  have blank: "strip ''  '' = []" by (simp add: strip_def isspace_def)
  have cde: "strip ''cde'' = ''cde''" by (simp add: strip_def isspace_def)
  show ?thesis
    by (simp add: batch_summarization_def process_document_def call_extractive_def no_kwargs_def
        extractive_summarization_def finish_def upt_three extractive_attempt_def one_sentence_def
        clock_zero_def sample_configuration strip_ab blank cde cfg)
qed

theorem batch_returns_successes_witness:
  "kw_summary_length no_kwargs = None \<and> kw_other no_kwargs = [] \<and>
   map character_count
     (snd (snd (batch_summarization sample_summarizer one_sentence every_document_429 clock_zero
                  [''ab'', ''  '', ''cde''] ''extractive'' no_kwargs))) =
     [length ''ab'', length ''cde''] \<and>
   length (snd (snd (batch_summarization sample_summarizer one_sentence every_document_429 clock_zero
                  [''ab'', ''  '', ''cde''] ''extractive'' no_kwargs))) \<le> 3 \<and>
   snd (snd (process_document sample_summarizer (one_sentence 1) (every_document_429 1) (clock_zero 1)
               ''extractive'' no_kwargs ''  '')) = None"
proof -
  have kw: "kw_summary_length no_kwargs = None \<and> kw_other no_kwargs = []"
    by (simp add: no_kwargs_def)
  have blank: "strip ''  '' = []" by (simp add: strip_def isspace_def)
  have raised: "snd (snd (call_extractive sample_summarizer (one_sentence 1) (clock_zero 1) ''  '' no_kwargs)) =
      Inl (ValueError ''Input text cannot be empty'')"
    by (simp add: call_extractive_def no_kwargs_def extractive_summarization_def finish_def blank)
  note b = batch_returns_successes [of sample_summarizer one_sentence every_document_429 clock_zero
      "[''ab'', ''  '', ''cde'']" "''extractive''" no_kwargs "one_sentence 1" "every_document_429 1"
      "clock_zero 1" "''  ''"]
  from b have len: "length (snd (snd (batch_summarization sample_summarizer one_sentence
      every_document_429 clock_zero [''ab'', ''  '', ''cde''] ''extractive'' no_kwargs))) \<le> 3"
    by simp
  from b raised have none: "snd (snd (process_document sample_summarizer (one_sentence 1)
      (every_document_429 1) (clock_zero 1) ''extractive'' no_kwargs ''  '')) = None"
    by simp
  show ?thesis
    by (intro conjI kw [THEN conjunct1] kw [THEN conjunct2] sample_batch len none)
qed

end
